theory Spec2Isabelle
  imports Main "HOL-Library.Word"
begin

section \<open>JavaScript values used by the library\<close>

text \<open>
  Numbers are modelled as \<open>int\<close> (the library only handles integral values), bytes of a
  \<open>Buffer\<close> or \<open>Uint8Array\<close> as \<open>8 word\<close>, and strings as lists of code units below
  256 (\<open>string\<close>).  Every \<open>throw\<close>, promise rejection and error event of the source is
  a value of \<open>js_error\<close>.
\<close>

type_synonym byte = "8 word"

datatype status_failure =
    HeaderMismatch
  | ChecksumMismatch
  | ImpossiblePower byte
  | ImpossibleMode byte

datatype js_error =
    StatusCheckFailed status_failure
  | SocketError string
  | NoSuchBuiltinFunction string
  | InvalidMode string
  | RangeError
  | TypeError

section \<open>lufo-api/src/TcpClient.js: private variables and functions\<close>

record CustomStep =
  red :: int
  green :: int
  blue :: int

record UfoStatus =
  st_raw :: "byte list"
  st_on :: bool
  st_mode :: string
  st_speed :: "int option"
  st_red :: int
  st_green :: int
  st_blue :: int
  st_white :: int

definition statusHeader :: byte where
  "statusHeader = 0x81"

definition statusRequest :: "byte list" where
  "statusRequest = [statusHeader, 0x8A, 0x8B, 0x96]"

definition statusResponseSize :: nat where
  "statusResponseSize = 14"

definition emptyBuffer :: "byte list" where
  "emptyBuffer = []"

definition powerOn :: "byte list" where
  "powerOn = [0x71, 0x23, 0x0F, 0xA3]"

definition powerOff :: "byte list" where
  "powerOff = [0x71, 0x24, 0x0F, 0xA4]"

definition builtinFunctionMap :: "(string \<times> byte) list" where
  "builtinFunctionMap =
    [(''sevenColorCrossFade'', 0x25),
     (''redGradualChange'', 0x26),
     (''greenGradualChange'', 0x27),
     (''blueGradualChange'', 0x28),
     (''yellowGradualChange'', 0x29),
     (''cyanGradualChange'', 0x2A),
     (''purpleGradualChange'', 0x2B),
     (''whiteGradualChange'', 0x2C),
     (''redGreenCrossFade'', 0x2D),
     (''redBlueCrossFade'', 0x2E),
     (''greenBlueCrossFade'', 0x2F),
     (''sevenColorStrobeFlash'', 0x30),
     (''redStrobeFlash'', 0x31),
     (''greenStrobeFlash'', 0x32),
     (''blueStrobeFlash'', 0x33),
     (''yellowStrobeFlash'', 0x34),
     (''cyanStrobeFlash'', 0x35),
     (''purpleStrobeFlash'', 0x36),
     (''whiteStrobeFlash'', 0x37),
     (''sevenColorJumpingChange'', 0x38),
     (''noFunction'', 0x61),
     (''postReset'', 0x63)]"

definition maxBuiltinSpeed :: int where
  "maxBuiltinSpeed = 100"

definition maxCustomSteps :: nat where
  "maxCustomSteps = 16"

definition nullStep :: CustomStep where
  "nullStep = \<lparr>red = 1, green = 2, blue = 3\<rparr>"

definition maxCustomSpeed :: int where
  "maxCustomSpeed = 30"

text \<open>\<open>_.clamp(number, lower, upper)\<close> of lodash: first the upper bound, then the lower.\<close>

definition lodash_clamp :: "int \<Rightarrow> int \<Rightarrow> int \<Rightarrow> int" where
  "lodash_clamp number lower upper =
    (let n = (if number \<le> upper then number else upper)
     in if n \<ge> lower then n else lower)"

definition clampRGBW :: "int \<Rightarrow> int" where
  "clampRGBW v = lodash_clamp v 0 255"

text \<open>\<open>buf.writeUInt8(value, offset)\<close> for a value the caller has brought into 0..255.\<close>

definition writeUInt8 :: "int \<Rightarrow> nat \<Rightarrow> byte list \<Rightarrow> byte list" where
  "writeUInt8 v i buf = buf[i := word_of_int v]"

text \<open>
  The sum of all the values of a buffer, then the remainder of the division by 256:
  \<open>Array.from(buf.values()).forEach((value) => { checksum += value; }); checksum %= 0x100\<close>.
\<close>

definition sumBytes :: "byte list \<Rightarrow> int" where
  "sumBytes buf = fold (\<lambda>v checksum. checksum + uint v) buf 0"

definition checksumOf :: "byte list \<Rightarrow> int" where
  "checksumOf buf = sumBytes buf mod 0x100"

definition prepareBytes :: "byte list \<Rightarrow> byte list" where
  "prepareBytes buf =
    (let newBuf = buf @ replicate 2 0;
         newBuf = writeUInt8 0x0f (length newBuf - 2) newBuf;
         lastIndex = length newBuf - 1;
         newBuf = writeUInt8 0 lastIndex newBuf;
         checksum = checksumOf newBuf
     in writeUInt8 checksum lastIndex newBuf)"

definition builtinFlipSpeed :: "int \<Rightarrow> int" where
  "builtinFlipSpeed speed = \<bar>lodash_clamp speed 0 maxBuiltinSpeed - maxBuiltinSpeed\<bar>"

definition customFlipSpeed :: "int \<Rightarrow> int" where
  "customFlipSpeed speed = \<bar>lodash_clamp speed 0 maxCustomSpeed - maxCustomSpeed\<bar>"

definition isNullStep :: "CustomStep \<Rightarrow> bool" where
  "isNullStep step \<longleftrightarrow>
     red step = red nullStep \<and> green step = green nullStep \<and> blue step = blue nullStep"

definition startsWith :: "string \<Rightarrow> string \<Rightarrow> bool" where
  "startsWith s p \<longleftrightarrow> take (length p) s = p"

section \<open>The status frame decoder inside \<open>_receiveStatus\<close>\<close>

text \<open>
  The body that \<open>_receiveStatus\<close> runs on a complete 14-byte response.  The source keeps
  a mutable \<open>err\<close> and a mutable \<open>result\<close> and runs five blocks in sequence, each but the
  first under \<open>if (!err)\<close>; each block is one function on the pair \<open>(err, result)\<close>.
\<close>

type_synonym decoding = "js_error option \<times> UfoStatus"

definition initialResult :: UfoStatus where
  "initialResult = \<lparr>st_raw = emptyBuffer, st_on = False, st_mode = '''', st_speed = None,
     st_red = 0, st_green = 0, st_blue = 0, st_white = 0\<rparr>"

definition verifyIntegrity :: "byte list \<Rightarrow> decoding \<Rightarrow> decoding" where
  "verifyIntegrity responseBytes d =
    (case d of (err, result) \<Rightarrow>
      if responseBytes ! 0 = statusHeader then
        (let result = result\<lparr>st_raw := responseBytes\<rparr>;
             lastIndex = statusResponseSize - 1;
             expectedChecksum = uint (responseBytes ! lastIndex);
             actualChecksum = checksumOf (writeUInt8 0 lastIndex responseBytes)
         in if expectedChecksum \<noteq> actualChecksum
            then (Some (StatusCheckFailed ChecksumMismatch), result)
            else (err, result))
      else (Some (StatusCheckFailed HeaderMismatch), result))"

definition readPower :: "byte list \<Rightarrow> decoding \<Rightarrow> decoding" where
  "readPower responseBytes d =
    (case d of (err, result) \<Rightarrow>
      if err = None then
        (let power = responseBytes ! 2
         in if power = 0x23 then (err, result\<lparr>st_on := True\<rparr>)
            else if power = 0x24 then (err, result\<lparr>st_on := False\<rparr>)
            else (Some (StatusCheckFailed (ImpossiblePower power)), result))
      else d)"

definition lookupFunctionName :: "byte \<Rightarrow> string option" where
  "lookupFunctionName mode =
     fold (\<lambda>(k, v) name. if name = None \<and> v = mode then Some k else name)
       builtinFunctionMap None"

definition readMode :: "byte list \<Rightarrow> decoding \<Rightarrow> decoding" where
  "readMode responseBytes d =
    (case d of (err, result) \<Rightarrow>
      if err = None then
        (let mode = responseBytes ! 3
         in if mode = 0x62 then (err, result\<lparr>st_mode := ''other''\<rparr>)
            else if mode = 0x61 then (err, result\<lparr>st_mode := ''static''\<rparr>)
            else if mode = 0x60 then (err, result\<lparr>st_mode := ''custom''\<rparr>)
            else (case lookupFunctionName mode of
                    Some name \<Rightarrow>
                      if name \<noteq> '''' then (err, result\<lparr>st_mode := ''function:'' @ name\<rparr>)
                      else (Some (StatusCheckFailed (ImpossibleMode mode)), result)
                  | None \<Rightarrow> (Some (StatusCheckFailed (ImpossibleMode mode)), result)))
      else d)"

definition readSpeed :: "byte list \<Rightarrow> decoding \<Rightarrow> decoding" where
  "readSpeed responseBytes d =
    (case d of (err, result) \<Rightarrow>
      if err = None then
        (let speed = uint (responseBytes ! 5);
             result = (if st_mode result = ''custom''
                       then result\<lparr>st_speed := Some (customFlipSpeed (speed - 1))\<rparr>
                       else result);
             result = (if startsWith (st_mode result) ''function''
                       then result\<lparr>st_speed := Some (builtinFlipSpeed speed)\<rparr>
                       else result)
         in (err, result))
      else d)"

definition readRGBW :: "byte list \<Rightarrow> decoding \<Rightarrow> decoding" where
  "readRGBW responseBytes d =
    (case d of (err, result) \<Rightarrow>
      if err = None then
        (err, result\<lparr>st_red := uint (responseBytes ! 6),
                      st_green := uint (responseBytes ! 7),
                      st_blue := uint (responseBytes ! 8),
                      st_white := uint (responseBytes ! 9)\<rparr>)
      else d)"

text \<open>
  The arguments \<open>(err, finalResult)\<close> that \<open>_receiveStatus\<close> hands to the status
  callback: \<open>Inl err\<close> for an error (and a null result), \<open>Inr result\<close> otherwise.
\<close>

definition decodeStatus :: "byte list \<Rightarrow> js_error + UfoStatus" where
  "decodeStatus responseBytes =
    (case readRGBW responseBytes (readSpeed responseBytes (readMode responseBytes
            (readPower responseBytes (verifyIntegrity responseBytes (None, initialResult))))) of
       (None, result) \<Rightarrow> Inr result
     | (Some err, result) \<Rightarrow> Inl err)"


section \<open>The \<open>custom\<close> command buffer\<close>

text \<open>
  \<open>while (stepsCopy.length < maxCustomSteps) stepsCopy.push(nullStep)\<close>: the loop runs
  at most \<open>maxCustomSteps\<close> times, the measure is the number of missing steps.
\<close>

function padSteps :: "CustomStep list \<Rightarrow> CustomStep list" where
  "padSteps stepsCopy =
     (if length stepsCopy < maxCustomSteps then padSteps (stepsCopy @ [nullStep]) else stepsCopy)"
  by pat_completeness auto
termination
  by (relation "measure (\<lambda>stepsCopy. maxCustomSteps - length stepsCopy)") auto

text \<open>\<open>steps.filter(s => !_isNullStep(s)).slice(0, maxCustomSteps)\<close>, then the loop.\<close>

definition stepsCopy :: "CustomStep list \<Rightarrow> CustomStep list" where
  "stepsCopy steps = padSteps (take maxCustomSteps (filter (\<lambda>s. \<not> isNullStep s) steps))"

text \<open>The body of \<open>stepsCopy.forEach\<close>: four bytes per step, written at the running index.\<close>

definition writeStep :: "CustomStep \<Rightarrow> byte list \<times> nat \<Rightarrow> byte list \<times> nat" where
  "writeStep step bi =
    (case bi of (buf, index) \<Rightarrow>
      (let buf = writeUInt8 (clampRGBW (red step)) index buf;
           index = index + 1;
           buf = writeUInt8 (clampRGBW (green step)) index buf;
           index = index + 1;
           buf = writeUInt8 (clampRGBW (blue step)) index buf;
           index = index + 1;
           buf = writeUInt8 0 index buf;
           index = index + 1
       in (buf, index)))"

definition customBuffer :: "byte \<Rightarrow> int \<Rightarrow> CustomStep list \<Rightarrow> byte list" where
  "customBuffer modeId speed steps =
    (let buf = replicate 68 0;
         buf = writeUInt8 0x51 0 buf;
         index = 1;
         (buf, index) = fold writeStep (stepsCopy steps) (buf, index);
         buf = writeUInt8 (customFlipSpeed speed + 1) index buf;
         index = index + 1;
         buf = buf[index := modeId];
         index = index + 1;
         buf = writeUInt8 0xFF index buf
     in buf)"

text \<open>
  The normalisation in the words of the specification: drop every step equal to the
  null step, truncate to 16, right-pad with the null step to length 16.
\<close>

definition normalize_spec :: "CustomStep list \<Rightarrow> CustomStep list" where
  "normalize_spec steps =
    (let kept = take 16 (filter (\<lambda>s. s \<noteq> nullStep) steps)
     in kept @ replicate (16 - length kept) nullStep)"

text \<open>The four wire bytes of one step.\<close>

definition stepBytes :: "CustomStep \<Rightarrow> byte list" where
  "stepBytes step = [word_of_int (clampRGBW (red step)), word_of_int (clampRGBW (green step)),
     word_of_int (clampRGBW (blue step)), 0]"


section \<open>The \<open>TcpClient\<close> class\<close>

text \<open>
  A promise is the index of its slot in the client's list of promises; a slot holds
  \<open>None\<close> while the promise is pending and its first settlement afterwards.  A promise
  of \<open>void\<close> resolves with \<open>None\<close>; \<open>status\<close> resolves with the status, or with \<open>None\<close>
  for \<open>null\<close>.
\<close>

type_synonym promise = nat

datatype settlement = Resolved "UfoStatus option" | Rejected js_error

text \<open>
  The listeners \<open>connect()\<close> puts on the socket's \<open>error\<close> event: \<open>connectFailure\<close>
  (which rejects the promise of that \<open>connect()\<close>) and, once connected, the handler that
  stores the error in \<open>_error\<close>.
\<close>

datatype error_listener = ConnectFailure promise | RecordError

text \<open>
  The closures that the control methods hand to \<open>_writePromise\<close> as \<open>resolve\<close>, with
  the variables they capture.
\<close>

datatype write_callback =
    OnWritten promise
  | OffWritten promise
  | RgbwWritten promise "byte list" int int int int
  | BuiltinWritten promise
  | CustomWritten promise

text \<open>What the client calls on its socket and on the owning \<open>Ufo\<close> object, in order.\<close>

datatype socket_call =
    NewSocket
  | SetNoDelay bool
  | Pause
  | Resume
  | Unref
  | Destroy
  | Connect
  | End
  | Write "byte list"
  | OnTcpDead "js_error option" "promise option"

record TcpClient =
  options_immediate :: bool
  options_cache :: bool
  dead :: bool
  connectFailed :: bool
  disconnectCallback :: "promise option"
  statusArray :: "byte list"
  statusIndex :: nat
  statusCache :: "UfoStatus option"
  error :: "js_error option"
  statusCallback :: "promise option"
  errorListeners :: "error_listener list"
  connectListeners :: "promise list"
  writeCallbacks :: "write_callback list"
  calls :: "socket_call list"
  promises :: "settlement option list"
  thens :: "(promise \<times> promise) list"

subsection \<open>Promises\<close>

definition newPromise :: "TcpClient \<Rightarrow> promise \<times> TcpClient" where
  "newPromise c = (length (promises c), c\<lparr>promises := promises c @ [None]\<rparr>)"

definition promiseState :: "promise \<Rightarrow> TcpClient \<Rightarrow> settlement option" where
  "promiseState p c = (if p < length (promises c) then promises c ! p else None)"

text \<open>Only the first \<open>resolve\<close> or \<open>reject\<close> of a promise has an effect.\<close>

definition settle1 :: "promise \<Rightarrow> settlement \<Rightarrow> TcpClient \<Rightarrow> TcpClient" where
  "settle1 p r c =
    (if p < length (promises c) \<and> promises c ! p = None
     then c\<lparr>promises := (promises c)[p := Some r]\<rparr> else c)"

text \<open>
  \<open>p.then(() => resolve()).catch(reject)\<close>: the follower resolves with no value when
  \<open>p\<close> resolves and rejects with \<open>p\<close>'s error when \<open>p\<close> rejects.
\<close>

definition follow :: "settlement \<Rightarrow> settlement" where
  "follow r = (case r of Resolved v \<Rightarrow> Resolved None | Rejected e \<Rightarrow> Rejected e)"

definition settle :: "promise \<Rightarrow> settlement \<Rightarrow> TcpClient \<Rightarrow> TcpClient" where
  "settle p r c =
    (if p < length (promises c) \<and> promises c ! p = None
     then fold (\<lambda>q. settle1 q (follow r)) (map snd (filter (\<lambda>pq. fst pq = p) (thens c)))
            (settle1 p r c)
     else c)"

definition thenResolve :: "promise \<Rightarrow> promise \<Rightarrow> TcpClient \<Rightarrow> TcpClient" where
  "thenResolve p q c =
    (case promiseState p c of
       Some r \<Rightarrow> settle q (follow r) c
     | None \<Rightarrow> c\<lparr>thens := thens c @ [(p, q)]\<rparr>)"

subsection \<open>Private methods\<close>

definition connect :: "TcpClient \<Rightarrow> promise \<times> TcpClient" where
  "connect c0 =
    (case newPromise c0 of (p, c) \<Rightarrow>
      if dead c then (p, settle p (Resolved None) c)
      else (p, c\<lparr>errorListeners := errorListeners c @ [ConnectFailure p],
                 connectListeners := connectListeners c @ [p],
                 calls := calls c @ [Connect]\<rparr>))"

definition createSocket :: "TcpClient \<Rightarrow> TcpClient" where
  "createSocket c =
     c\<lparr>dead := False,
       connectFailed := False,
       disconnectCallback := None,
       statusArray := replicate statusResponseSize 0,
       statusIndex := 0,
       statusCache := None,
       error := None,
       errorListeners := [],
       connectListeners := [],
       calls := calls c @ [NewSocket, SetNoDelay (options_immediate c), Pause]\<rparr>"

definition closeSocket :: "TcpClient \<Rightarrow> TcpClient" where
  "closeSocket c =
    (if connectFailed c then c
     else
      (let reconnect = \<not> dead c;
           reconnect = (if reconnect then (if error c \<noteq> None then False else reconnect)
                        else reconnect);
           c = c\<lparr>calls := calls c @ [Unref, Destroy]\<rparr>
       in if reconnect then snd (connect (createSocket c))
          else (let c = c\<lparr>dead := True\<rparr>
                in c\<lparr>calls := calls c @ [OnTcpDead (error c) (disconnectCallback c)]\<rparr>)))"

text \<open>The function that \<open>status\<close> stores in \<open>_statusCallback\<close>, for the promise \<open>p\<close>.\<close>

definition runStatusCallback :: "promise \<Rightarrow> js_error + UfoStatus \<Rightarrow> TcpClient \<Rightarrow> TcpClient" where
  "runStatusCallback p r c0 =
    (let c = c0\<lparr>statusCallback := None, calls := calls c0 @ [Pause]\<rparr>
     in case r of
          Inl err \<Rightarrow> settle p (Rejected err) (c\<lparr>statusCache := None\<rparr>)
        | Inr data \<Rightarrow>
            settle p (Resolved (Some data)) (c\<lparr>disconnectCallback := None, statusCache := Some data\<rparr>))"

text \<open>
  \<open>_receiveStatus\<close>.  \<open>this._statusArray.set(data, oldIndex)\<close> throws a RangeError when
  the data do not fit into the 14-byte array, before anything is changed.
\<close>

definition receiveStatus :: "byte list \<Rightarrow> TcpClient \<Rightarrow> js_error + TcpClient" where
  "receiveStatus data c0 =
    (if error c0 = None then
      (let oldIndex = statusIndex c0;
           newIndex = oldIndex + length data
       in if oldIndex + length data > length (statusArray c0) then Inl RangeError
          else
           (let c = c0\<lparr>statusArray := take oldIndex (statusArray c0) @ data @
                                        drop (oldIndex + length data) (statusArray c0)\<rparr>
            in if newIndex \<ge> statusResponseSize then
                 (let responseBytes = statusArray c;
                      c = c\<lparr>statusArray := replicate (length (statusArray c)) 0\<rparr>;
                      newIndex = 0;
                      c = (case statusCallback c of
                             Some p \<Rightarrow> runStatusCallback p (decodeStatus responseBytes) c
                           | None \<Rightarrow> c)
                  in Inr (c\<lparr>statusIndex := newIndex\<rparr>))
               else Inr (c\<lparr>statusIndex := newIndex\<rparr>)))
     else Inr c0)"

text \<open>
  \<open>_updateStatusCache\<close> and \<open>_unsetStatusCache\<close>.  \<open>_.set\<close> and \<open>_.unset\<close> change the cache
  object in place, and \<open>status\<close> resolves its promise with that same object.  The state
  keeps the cache as a value: a settlement records the status as it was when the promise
  was settled, and a later update of the cache is seen in \<open>statusCache\<close> and in the
  promises settled after it, not in the values of the promises settled before.
\<close>

definition updateStatusCache :: "(UfoStatus \<Rightarrow> UfoStatus) \<Rightarrow> TcpClient \<Rightarrow> TcpClient" where
  "updateStatusCache set_path c =
    (case statusCache c of
       Some cache \<Rightarrow> c\<lparr>statusCache := Some (set_path cache)\<rparr>
     | None \<Rightarrow> c)"

definition unsetStatusCache :: "(UfoStatus \<Rightarrow> UfoStatus) option \<Rightarrow> TcpClient \<Rightarrow> TcpClient" where
  "unsetStatusCache path c =
    (case path of
       None \<Rightarrow> c\<lparr>statusCache := None\<rparr>
     | Some unset_path \<Rightarrow>
         (case statusCache c of
            Some cache \<Rightarrow> c\<lparr>statusCache := Some (unset_path cache)\<rparr>
          | None \<Rightarrow> c))"

definition writePromise :: "byte list \<Rightarrow> write_callback \<Rightarrow> promise \<Rightarrow> TcpClient \<Rightarrow> TcpClient" where
  "writePromise buffer resolve reject c =
     c\<lparr>disconnectCallback := Some reject,
       writeCallbacks := writeCallbacks c @ [resolve],
       calls := calls c @ [Write buffer]\<rparr>"

text \<open>
  The callback that \<open>_writePromise\<close> gives to \<open>socket.write\<close>: it clears
  \<open>_disconnectCallback\<close> and runs the method's own closure.
\<close>

definition written :: "write_callback \<Rightarrow> TcpClient \<Rightarrow> TcpClient" where
  "written cb c0 =
    (let c = c0\<lparr>disconnectCallback := None\<rparr>
     in case cb of
          OnWritten p \<Rightarrow>
            settle p (Resolved None) (updateStatusCache (\<lambda>s. s\<lparr>st_on := True\<rparr>) c)
        | OffWritten p \<Rightarrow>
            settle p (Resolved None) (updateStatusCache (\<lambda>s. s\<lparr>st_on := False\<rparr>) c)
        | RgbwWritten p finalData realRed realGreen realBlue realWhite \<Rightarrow>
            (let c = updateStatusCache (\<lambda>s. s\<lparr>st_raw := finalData\<rparr>) c;
                 c = updateStatusCache (\<lambda>s. s\<lparr>st_mode := ''static''\<rparr>) c;
                 c = unsetStatusCache (Some (\<lambda>s. s\<lparr>st_speed := None\<rparr>)) c;
                 c = updateStatusCache (\<lambda>s. s\<lparr>st_red := realRed\<rparr>) c;
                 c = updateStatusCache (\<lambda>s. s\<lparr>st_green := realGreen\<rparr>) c;
                 c = updateStatusCache (\<lambda>s. s\<lparr>st_blue := realBlue\<rparr>) c;
                 c = updateStatusCache (\<lambda>s. s\<lparr>st_white := realWhite\<rparr>) c
             in settle p (Resolved None) c)
        | BuiltinWritten p \<Rightarrow> settle p (Resolved None) (unsetStatusCache None c)
        | CustomWritten p \<Rightarrow> settle p (Resolved None) (unsetStatusCache None c))"

subsection \<open>Public methods\<close>

definition disconnect :: "TcpClient \<Rightarrow> TcpClient" where
  "disconnect c =
    (if dead c then c
     else closeSocket (c\<lparr>dead := True, calls := calls c @ [End]\<rparr>))"

definition status :: "bool \<Rightarrow> TcpClient \<Rightarrow> promise \<times> TcpClient" where
  "status force c0 =
    (case newPromise c0 of (p, c) \<Rightarrow>
      if dead c then (p, settle p (Resolved None) c)
      else
       (let cacheIsEnabled = options_cache c;
            cacheExists = (statusCache c \<noteq> None);
            isStatic = (cacheExists \<and>
                        (case statusCache c of Some s \<Rightarrow> st_mode s = ''static'' | None \<Rightarrow> False))
        in if cacheIsEnabled \<and> \<not> force \<and> cacheExists \<and> isStatic
           then (p, settle p (Resolved (statusCache c)) c)
           else (p, c\<lparr>statusCallback := Some p,
                      disconnectCallback := Some p,
                      calls := calls c @ [Resume, Write statusRequest]\<rparr>)))"

definition on :: "TcpClient \<Rightarrow> promise \<times> TcpClient" where
  "on c0 =
    (case newPromise c0 of (p, c) \<Rightarrow>
      if dead c then (p, settle p (Resolved None) c)
      else (p, writePromise powerOn (OnWritten p) p c))"

definition off :: "TcpClient \<Rightarrow> promise \<times> TcpClient" where
  "off c0 =
    (case newPromise c0 of (p, c) \<Rightarrow>
      if dead c then (p, settle p (Resolved None) c)
      else (p, writePromise powerOff (OffWritten p) p c))"

definition rgbw :: "int \<Rightarrow> int \<Rightarrow> int \<Rightarrow> int \<Rightarrow> TcpClient \<Rightarrow> promise \<times> TcpClient" where
  "rgbw r g b w c0 =
    (case newPromise c0 of (p, c) \<Rightarrow>
      if dead c then (p, settle p (Resolved None) c)
      else
       (let buf = replicate 6 0;
            buf = writeUInt8 0x31 0 buf;
            realRed = clampRGBW r;
            realGreen = clampRGBW g;
            realBlue = clampRGBW b;
            realWhite = clampRGBW w;
            buf = writeUInt8 realRed 1 buf;
            buf = writeUInt8 realGreen 2 buf;
            buf = writeUInt8 realBlue 3 buf;
            buf = writeUInt8 realWhite 4 buf;
            buf = writeUInt8 0 5 buf;
            finalData = prepareBytes buf
        in (p, writePromise finalData
                 (RgbwWritten p finalData realRed realGreen realBlue realWhite) p c)))"

definition builtin :: "string \<Rightarrow> int \<Rightarrow> TcpClient \<Rightarrow> promise \<times> TcpClient" where
  "builtin name speed c0 =
    (case newPromise c0 of (p, c) \<Rightarrow>
      if dead c then (p, settle p (Resolved None) c)
      else
       (case map_of builtinFunctionMap name of
          None \<Rightarrow> (p, settle p (Rejected (NoSuchBuiltinFunction name)) c)
        | Some functionId \<Rightarrow>
           (let buf = replicate 3 0;
                buf = writeUInt8 0x61 0 buf;
                buf = buf[1 := functionId];
                buf = writeUInt8 (builtinFlipSpeed speed) 2 buf
            in (p, writePromise (prepareBytes buf) (BuiltinWritten p) p c))))"

definition customModeId :: "string \<Rightarrow> byte option" where
  "customModeId mode =
    (if mode = ''gradual'' then Some 0x3A
     else if mode = ''jumping'' then Some 0x3B
     else if mode = ''strobe'' then Some 0x3C
     else None)"

definition custom :: "string \<Rightarrow> int \<Rightarrow> CustomStep list \<Rightarrow> TcpClient \<Rightarrow> promise \<times> TcpClient" where
  "custom mode speed steps c0 =
    (case newPromise c0 of (p, c) \<Rightarrow>
      if dead c then (p, settle p (Resolved None) c)
      else
       (case customModeId mode of
          None \<Rightarrow> (p, settle p (Rejected (InvalidMode mode)) c)
        | Some modeId \<Rightarrow>
            (p, writePromise (prepareBytes (customBuffer modeId speed steps)) (CustomWritten p) p c)))"

text \<open>The constructor: the options, then \<open>_createSocket()\<close>.\<close>

definition newTcpClient :: "bool \<Rightarrow> bool \<Rightarrow> TcpClient" where
  "newTcpClient immediate cache =
     createSocket
       \<lparr>options_immediate = immediate, options_cache = cache, dead = False,
        connectFailed = False, disconnectCallback = None, statusArray = [], statusIndex = 0,
        statusCache = None, error = None, statusCallback = None, errorListeners = [],
        connectListeners = [], writeCallbacks = [], calls = [], promises = [], thens = []\<rparr>"

subsection \<open>Socket events and the event loop\<close>

text \<open>
  The callback of \<open>socket.connect\<close> for the promise \<open>p\<close> of one \<open>connect()\<close> call.
\<close>

definition connected :: "promise \<Rightarrow> TcpClient \<Rightarrow> TcpClient" where
  "connected p c0 =
    (let c = c0\<lparr>errorListeners := remove1 (ConnectFailure p) (errorListeners c0) @ [RecordError]\<rparr>
     in if options_cache c
        then (case status False c of (ps, c) \<Rightarrow> thenResolve ps p c)
        else settle p (Resolved None) c)"

definition onConnect :: "TcpClient \<Rightarrow> TcpClient" where
  "onConnect c = fold connected (connectListeners c) (c\<lparr>connectListeners := []\<rparr>)"

definition runErrorListener :: "js_error \<Rightarrow> error_listener \<Rightarrow> TcpClient \<Rightarrow> TcpClient" where
  "runErrorListener err l c =
    (case l of
       ConnectFailure p \<Rightarrow> settle p (Rejected err) (c\<lparr>connectFailed := True\<rparr>)
     | RecordError \<Rightarrow> c\<lparr>error := Some err\<rparr>)"

text \<open>An \<open>error\<close> event that no listener handles is thrown by the event emitter.\<close>

definition onError :: "js_error \<Rightarrow> TcpClient \<Rightarrow> js_error + TcpClient" where
  "onError err c =
    (if errorListeners c = [] then Inl err
     else Inr (fold (runErrorListener err) (errorListeners c) c))"

definition onWritten :: "TcpClient \<Rightarrow> TcpClient" where
  "onWritten c =
    (case writeCallbacks c of
       [] \<Rightarrow> c
     | cb # rest \<Rightarrow> written cb (c\<lparr>writeCallbacks := rest\<rparr>))"

datatype tcp_event =
    SocketConnected
  | SocketFailed js_error
  | SocketClosed
  | SocketData "byte list"
  | SocketWritten
  | CallConnect
  | CallDisconnect
  | CallStatus bool
  | CallOn
  | CallOff
  | CallRgbw int int int int
  | CallBuiltin string int
  | CallCustom string int "CustomStep list"

definition step :: "tcp_event \<Rightarrow> TcpClient \<Rightarrow> js_error + TcpClient" where
  "step ev c =
    (case ev of
       SocketConnected \<Rightarrow> Inr (onConnect c)
     | SocketFailed err \<Rightarrow> onError err c
     | SocketClosed \<Rightarrow> Inr (closeSocket c)
     | SocketData data \<Rightarrow> receiveStatus data c
     | SocketWritten \<Rightarrow> Inr (onWritten c)
     | CallConnect \<Rightarrow> Inr (snd (connect c))
     | CallDisconnect \<Rightarrow> Inr (disconnect c)
     | CallStatus force \<Rightarrow> Inr (snd (status force c))
     | CallOn \<Rightarrow> Inr (snd (on c))
     | CallOff \<Rightarrow> Inr (snd (off c))
     | CallRgbw r g b w \<Rightarrow> Inr (snd (rgbw r g b w c))
     | CallBuiltin name speed \<Rightarrow> Inr (snd (builtin name speed c))
     | CallCustom mode speed steps \<Rightarrow> Inr (snd (custom mode speed steps c)))"

text \<open>A run of the event loop stops at the first exception that nothing catches.\<close>

fun run :: "tcp_event list \<Rightarrow> TcpClient \<Rightarrow> js_error + TcpClient" where
  "run [] c = Inr c"
| "run (ev # evs) c = (case step ev c of Inl e \<Rightarrow> Inl e | Inr c' \<Rightarrow> run evs c')"

section \<open>The UDP utilities: discovery and AT commands\<close>

text \<open>
  The second module of \<open>src/src/TcpCustoms.js\<close>.  The modules \<open>UdpStrings\<close> and
  \<open>UdpCommands\<close> that it imports are not part of the sources; their constants and the
  command table are parameters of the model.
\<close>

subsection \<open>JavaScript values and string methods\<close>

datatype js_value =
    JsUndefined
  | JsBoolean bool
  | JsString string
  | JsArray "string list"
  | JsBuffer string

definition truthy :: "js_value \<Rightarrow> bool" where
  "truthy v =
    (case v of
       JsUndefined \<Rightarrow> False
     | JsBoolean b \<Rightarrow> b
     | JsString s \<Rightarrow> s \<noteq> []
     | JsArray xs \<Rightarrow> True
     | JsBuffer b \<Rightarrow> True)"

text \<open>\<open>a || b\<close>.\<close>

definition js_or :: "js_value \<Rightarrow> js_value \<Rightarrow> js_value" where
  "js_or a b = (if truthy a then a else b)"

text \<open>
  \<open>a === b\<close> for values of which at most one is an object: values of different types
  are never strictly equal, and an object (an array, a Buffer) is strictly equal to
  nothing but itself.
\<close>

fun strictEquals :: "js_value \<Rightarrow> js_value \<Rightarrow> bool" where
  "strictEquals JsUndefined JsUndefined = True"
| "strictEquals (JsBoolean a) (JsBoolean b) = (a = b)"
| "strictEquals (JsString a) (JsString b) = (a = b)"
| "strictEquals a b = False"

definition isLineTerminator :: "char \<Rightarrow> bool" where
  "isLineTerminator c \<longleftrightarrow> c = CHR 0x0A \<or> c = CHR 0x0D"

text \<open>The code units below 256 that \<open>trim()\<close> removes: white space and line terminators.\<close>

definition isWhiteSpace :: "char \<Rightarrow> bool" where
  "isWhiteSpace c \<longleftrightarrow>
     c = CHR 0x09 \<or> c = CHR 0x0A \<or> c = CHR 0x0B \<or> c = CHR 0x0C \<or> c = CHR 0x0D \<or>
     c = CHR 0x20 \<or> c = CHR 0xA0"

definition trim :: "string \<Rightarrow> string" where
  "trim s = rev (dropWhile isWhiteSpace (rev (dropWhile isWhiteSpace s)))"

definition endsWith :: "string \<Rightarrow> string \<Rightarrow> bool" where
  "endsWith s p \<longleftrightarrow> length p \<le> length s \<and> drop (length s - length p) s = p"

text \<open>\<open>s.split(',')\<close>: the empty string gives one empty field.\<close>

fun split_comma :: "string \<Rightarrow> string list" where
  "split_comma [] = [[]]"
| "split_comma (c # cs) =
     (if c = CHR '','' then [] # split_comma cs
      else (case split_comma cs of
              x # xs \<Rightarrow> (c # x) # xs
            | [] \<Rightarrow> [[c]]))"

text \<open>\<open>args.join(',')\<close>.\<close>

fun join_comma :: "string list \<Rightarrow> string" where
  "join_comma [] = []"
| "join_comma [x] = x"
| "join_comma (x # y # ys) = x @ '','' @ join_comma (y # ys)"

definition toLowerCase_char :: "char \<Rightarrow> char" where
  "toLowerCase_char c =
    (let n = (of_char c :: nat)
     in if (65 \<le> n \<and> n \<le> 90) \<or> (192 \<le> n \<and> n \<le> 222 \<and> n \<noteq> 215)
        then char_of (n + 32) else c)"

definition toLowerCase :: "string \<Rightarrow> string" where
  "toLowerCase s = map toLowerCase_char s"

text \<open>
  \<open>s.replace(/(.{2})/g, '$1:')\<close>: from left to right, two code units that are not line
  terminators are followed by a colon; elsewhere the scan moves on by one.
\<close>

fun insertColons :: "string \<Rightarrow> string" where
  "insertColons (a # b # rest) =
     (if \<not> isLineTerminator a \<and> \<not> isLineTerminator b
      then a # b # CHR '':'' # insertColons rest
      else a # insertColons (b # rest))"
| "insertColons s = s"

subsection \<open>The hello response\<close>

definition normalizeMac :: "string \<Rightarrow> string" where
  "normalizeMac mac =
     butlast (insertColons (filter (\<lambda>c. c \<noteq> CHR ''-'' \<and> c \<noteq> CHR '':'') (toLowerCase mac)))"

record Device =
  ip :: "string option"
  mac :: string
  model :: "string option"

text \<open>\<open>xs[i]\<close>: \<open>undefined\<close> out of range.\<close>

definition at_index :: "'a list \<Rightarrow> nat \<Rightarrow> 'a option" where
  "at_index xs i = (if i < length xs then Some (xs ! i) else None)"

text \<open>
  \<open>helloResponseParser\<close>.  With fewer than two fields, \<open>normalizeMac(undefined)\<close> throws a
  TypeError; a response that is neither a string nor an array has no \<open>split\<close> method.
\<close>

definition helloResponseParser :: "js_value \<Rightarrow> js_error + Device" where
  "helloResponseParser response =
    (case (case response of
             JsArray xs \<Rightarrow> Some xs
           | JsString s \<Rightarrow> Some (split_comma s)
           | _ \<Rightarrow> None) of
       None \<Rightarrow> Inl TypeError
     | Some splitResponse \<Rightarrow>
         (case at_index splitResponse 1 of
            None \<Rightarrow> Inl TypeError
          | Some m \<Rightarrow>
              Inr \<lparr>ip = at_index splitResponse 0, mac = normalizeMac m,
                   model = at_index splitResponse 2\<rparr>))"

subsection \<open>\<open>discover\<close>\<close>

record UdpStrings =
  defaultHello :: string
  sendPrefix :: string
  sendSuffix :: string
  recvPrefix :: string
  recvSuffix :: string

record DiscoverOptions =
  opt_password :: "string option"
  opt_timeout :: "int option"
  opt_localPort :: "int option"
  opt_remotePort :: "int option"

text \<open>What \<open>discover\<close> calls on its socket and timers, and the calls of the callback.\<close>

datatype udp_call =
    CreateSocket
  | UdpUnref
  | Bind "int option"
  | SetBroadcast bool
  | Send js_value int string
  | SetTimeout int
  | ClearTimeout
  | UdpClose
  | Callback "js_error option" "Device list"

text \<open>
  The variables that the handlers of \<open>discover\<close> close over; \<open>stopDiscover\<close> is true once
  the timer has been started, \<open>dc_closed\<close> once the socket has been closed.
\<close>

record Discovery =
  dc_error :: "js_error option"
  dc_data :: "Device list"
  dc_hello :: js_value
  dc_timeout :: int
  dc_remotePort :: int
  stopDiscover :: bool
  dc_closed :: bool
  dc_calls :: "udp_call list"

definition defaultPort :: int where
  "defaultPort = 48899"

text \<open>\<open>!n || n < 0\<close> for an optional number: the default replaces it.\<close>

definition number_or_default :: "int option \<Rightarrow> int \<Rightarrow> int" where
  "number_or_default n dflt =
    (case n of
       None \<Rightarrow> dflt
     | Some v \<Rightarrow> if v = 0 \<or> v < 0 then dflt else v)"

text \<open>The body of \<open>discover\<close> up to \<open>socket.bind\<close>; the rest happens in the handlers.\<close>

definition discover :: "UdpStrings \<Rightarrow> DiscoverOptions \<Rightarrow> Discovery" where
  "discover strs options =
    (let hello = JsBuffer (case opt_password options of
                             Some p \<Rightarrow> if p \<noteq> [] then p else defaultHello strs
                           | None \<Rightarrow> defaultHello strs);
         discoverTimeout = 3000;
         timeout = number_or_default (opt_timeout options) discoverTimeout;
         remotePort = number_or_default (opt_remotePort options) defaultPort;
         localPort = opt_localPort options
     in \<lparr>dc_error = None, dc_data = [], dc_hello = hello, dc_timeout = timeout,
         dc_remotePort = remotePort, stopDiscover = False, dc_closed = False,
         dc_calls = [CreateSocket, UdpUnref,
                     case localPort of
                       None \<Rightarrow> Bind None
                     | Some v \<Rightarrow> if v = 0 \<or> v < 0 then Bind None else Bind (Some v)]\<rparr>)"

text \<open>The \<open>close\<close> handler.\<close>

definition onUdpClose :: "Discovery \<Rightarrow> Discovery" where
  "onUdpClose d =
    (let d = (if stopDiscover d then d\<lparr>dc_calls := dc_calls d @ [ClearTimeout]\<rparr> else d)
     in d\<lparr>dc_closed := True,
          dc_calls := dc_calls d @ [Callback (dc_error d) (dc_data d)]\<rparr>)"

text \<open>\<open>socket.close()\<close>, which makes the socket emit \<open>close\<close>.\<close>

definition socketClose :: "Discovery \<Rightarrow> Discovery" where
  "socketClose d = onUdpClose (d\<lparr>dc_calls := dc_calls d @ [UdpClose]\<rparr>)"

text \<open>The \<open>error\<close> handler.\<close>

definition onUdpError :: "js_error \<Rightarrow> Discovery \<Rightarrow> Discovery" where
  "onUdpError err d =
    (let d = (if stopDiscover d then d\<lparr>dc_calls := dc_calls d @ [ClearTimeout]\<rparr> else d);
         d = d\<lparr>dc_error := Some err\<rparr>
     in socketClose d)"

text \<open>
  The \<open>message\<close> handler; \<open>message\<close> is \<open>msg.toString('utf8')\<close>, a string, and \<open>hello\<close> is
  the Buffer made from the password.
\<close>

definition onMessage :: "string \<Rightarrow> Discovery \<Rightarrow> js_error + Discovery" where
  "onMessage message d =
    (if dc_error d = None then
       (if \<not> strictEquals (JsString message) (dc_hello d) then
          (case helloResponseParser (JsString message) of
             Inl e \<Rightarrow> Inl e
           | Inr dev \<Rightarrow> Inr (d\<lparr>dc_data := dc_data d @ [dev]\<rparr>))
        else Inr d)
     else Inr d)"

text \<open>The \<open>listening\<close> handler and the callback of \<open>socket.send\<close>.\<close>

definition onListening :: "Discovery \<Rightarrow> Discovery" where
  "onListening d =
     d\<lparr>dc_calls := dc_calls d @
        [SetBroadcast True, Send (dc_hello d) (dc_remotePort d) ''255.255.255.255'']\<rparr>"

definition onSent :: "js_error option \<Rightarrow> Discovery \<Rightarrow> Discovery" where
  "onSent err d =
    (case err of
       Some e \<Rightarrow> onUdpError e d
     | None \<Rightarrow> d\<lparr>stopDiscover := True, dc_calls := dc_calls d @ [SetTimeout (dc_timeout d)]\<rparr>)"

datatype udp_event =
    Listening
  | Sent "js_error option"
  | Message string
  | UdpError js_error
  | TimerFired

text \<open>A closed socket emits nothing, and its timer has been cleared.\<close>

definition udp_step :: "udp_event \<Rightarrow> Discovery \<Rightarrow> js_error + Discovery" where
  "udp_step ev d =
    (if dc_closed d then Inr d
     else case ev of
            Listening \<Rightarrow> Inr (onListening d)
          | Sent err \<Rightarrow> Inr (onSent err d)
          | Message message \<Rightarrow> onMessage message d
          | UdpError err \<Rightarrow> Inr (onUdpError err d)
          | TimerFired \<Rightarrow> Inr (socketClose d))"

fun udp_run :: "udp_event list \<Rightarrow> Discovery \<Rightarrow> js_error + Discovery" where
  "udp_run [] d = Inr d"
| "udp_run (ev # evs) d = (case udp_step ev d of Inl e \<Rightarrow> Inl e | Inr d' \<Rightarrow> udp_run evs d')"

subsection \<open>\<open>assembleCommand\<close>\<close>

record UdpCommand =
  cmd :: string
  cmd_literal :: bool
  cmd_get :: js_value
  cmd_set :: js_value

text \<open>
  The \<open>recv\<close> function of the object that \<open>assembleCommand\<close> returns; \<open>this\<close> is the value
  it was bound to, \<open>command[mode] || false\<close>.
\<close>

definition recv :: "UdpStrings \<Rightarrow> js_value \<Rightarrow> string \<Rightarrow> string list" where
  "recv strs this response =
    (let result = response;
         result = (if startsWith result (recvPrefix strs)
                   then drop (length (recvPrefix strs)) result else result);
         result = (if startsWith result ''='' then drop 1 result else result);
         result = (if endsWith result (recvSuffix strs)
                   then take (length result - length (recvPrefix strs)) result else result);
         result = trim result
     in if result = [] then []
        else (case this of
                JsArray xs \<Rightarrow> split_comma result
              | JsString s \<Rightarrow> [result]
              | _ \<Rightarrow> []))"

text \<open>\<open>UdpCommands.get(name)\<close> is \<open>undefined\<close> for an unknown name, and \<open>command.cmd\<close> throws.\<close>

definition assembleCommand ::
  "UdpStrings \<Rightarrow> (string \<Rightarrow> UdpCommand option) \<Rightarrow> string \<Rightarrow> string list \<Rightarrow>
   js_error + string \<times> (string \<Rightarrow> string list)" where
  "assembleCommand strs commands name setArgs =
    (case commands name of
       None \<Rightarrow> Inl TypeError
     | Some command \<Rightarrow>
        (let cmdString = cmd command;
             set_mode = (length setArgs > 0);
             cmdString =
               (if \<not> cmd_literal command then
                  (let cmdString = sendPrefix strs @ cmdString;
                       cmdString = (if set_mode then cmdString @ ''='' @ join_comma setArgs
                                    else cmdString)
                   in cmdString @ sendSuffix strs)
                else cmdString)
         in Inr (cmdString,
                 recv strs (js_or (if set_mode then cmd_set command else cmd_get command)
                              (JsBoolean False)))))"

text \<open>
  The decode function in the words of the specification: strip the receive prefix, a
  leading \<open>=\<close> and the receive suffix, trim, then return the fields according to the
  role.
\<close>

definition recv_spec :: "UdpStrings \<Rightarrow> js_value \<Rightarrow> string \<Rightarrow> string list" where
  "recv_spec strs role response =
    (let result = response;
         result = (if startsWith result (recvPrefix strs)
                   then drop (length (recvPrefix strs)) result else result);
         result = (if startsWith result ''='' then drop 1 result else result);
         result = (if endsWith result (recvSuffix strs)
                   then take (length result - length (recvSuffix strs)) result else result);
         result = trim result
     in if result = [] then []
        else (case role of
                JsArray xs \<Rightarrow> split_comma result
              | JsString s \<Rightarrow> [result]
              | _ \<Rightarrow> []))"

section \<open>Verification of the frame codec\<close>

lemma prepareBytes_eq:
  "prepareBytes buf = buf @ [0x0f, word_of_int (checksumOf (buf @ [0x0f, 0]))]"
  by (simp add: prepareBytes_def writeUInt8_def Let_def list_update_append nth_append
      numeral_2_eq_2)

lemma sumBytes_fold: "fold (\<lambda>v c. c + uint v) buf a = a + sum_list (map uint buf)"
  by (induction buf arbitrary: a) auto

lemma sumBytes_sum: "sumBytes buf = sum_list (map uint buf)"
  by (simp add: sumBytes_def sumBytes_fold)

lemma checksumOf_range: "0 \<le> checksumOf buf \<and> checksumOf buf < 256"
  by (simp add: checksumOf_def)

lemma uint_byte_of_int: "0 \<le> v \<Longrightarrow> v \<le> 255 \<Longrightarrow> uint (word_of_int v :: byte) = v"
  by (simp add: uint_word_of_int take_bit_eq_mod)

lemma uint_checksum: "uint (word_of_int (checksumOf buf) :: byte) = checksumOf buf"
  using checksumOf_range[of buf] by (simp add: uint_byte_of_int)

lemma verify_prepared:
  assumes "length payload = 12" "payload ! 0 = statusHeader"
  shows "verifyIntegrity (prepareBytes payload) (None, r) =
           (None, r\<lparr>st_raw := prepareBytes payload\<rparr>)"
  using assms
  by (simp add: verifyIntegrity_def prepareBytes_eq statusResponseSize_def nth_append Let_def
      writeUInt8_def list_update_append uint_checksum)

lemma lookup_fold:
  "fold (\<lambda>(k, v) name. if name = None \<and> v = m then Some k else name) xs acc =
     (case acc of Some a \<Rightarrow> Some a | None \<Rightarrow> map_of (map prod.swap xs) m)"
  by (induction xs arbitrary: acc) (auto split: option.splits)

lemma lookupFunctionName_map_of:
  "lookupFunctionName m = map_of (map prod.swap builtinFunctionMap) m"
  by (simp add: lookupFunctionName_def lookup_fold)

lemma builtin_names_nonempty: "\<forall>(k, v) \<in> set builtinFunctionMap. k \<noteq> []"
  by (simp add: builtinFunctionMap_def)

lemma lookup_Some_nonempty:
  assumes "lookupFunctionName m = Some name"
  shows "name \<noteq> []"
proof -
  from assms have "(m, name) \<in> set (map prod.swap builtinFunctionMap)"
    unfolding lookupFunctionName_map_of by (rule map_of_SomeD)
  then have "(name, m) \<in> set builtinFunctionMap" by auto
  with builtin_names_nonempty show ?thesis by blast
qed

lemma lookup_known:
  assumes "m \<in> snd ` set builtinFunctionMap"
  shows "\<exists>n. lookupFunctionName m = Some n"
proof -
  from assms have "m \<in> fst ` set (map prod.swap builtinFunctionMap)" by force
  then have "map_of (map prod.swap builtinFunctionMap) m \<noteq> None"
    by (simp only: map_of_eq_None_iff not_not)
  then show ?thesis by (auto simp: lookupFunctionName_map_of)
qed

lemma decode_cases:
  "decodeStatus frame = Inr st \<Longrightarrow>
     (frame ! 3 = 0x62 \<and> st_mode st = ''other'' \<and> st_speed st = None) \<or>
     (frame ! 3 = 0x61 \<and> st_mode st = ''static'' \<and> st_speed st = None) \<or>
     (frame ! 3 = 0x60 \<and> st_mode st = ''custom'' \<and>
        st_speed st = Some (customFlipSpeed (uint (frame ! 5) - 1))) \<or>
     (\<exists>name. lookupFunctionName (frame ! 3) = Some name \<and> st_mode st = ''function:'' @ name \<and>
        st_speed st = Some (builtinFlipSpeed (uint (frame ! 5))))"
  unfolding decodeStatus_def readRGBW_def readSpeed_def readMode_def readPower_def
    verifyIntegrity_def initialResult_def Let_def startsWith_def
  by (auto split: if_splits option.splits prod.splits)

text \<open>
  C2, as the code has it.  The command encoder appends the flag byte \<open>0x0f\<close> and the sum
  of all the bytes of the buffer (the checksum position counted as 0) modulo 256.  The
  decoder accepts the encoding of a payload when the result is a status frame: the payload
  has 12 bytes (so that the frame has 14), byte 0 is the header \<open>0x81\<close>, byte 2 is a power
  value (\<open>0x23\<close> or \<open>0x24\<close>) and byte 3 is \<open>0x60\<close>, \<open>0x61\<close>, \<open>0x62\<close> or the id of a built-in
  function.  Then decoding succeeds and the raw bytes of the decoded status are the
  payload, unchanged, followed by the flag and the checksum.
\<close>

theorem checksum_roundtrip:
  assumes len: "length payload = 12" and hd: "payload ! 0 = statusHeader"
    and pw: "payload ! 2 = 0x23 \<or> payload ! 2 = 0x24"
    and md: "payload ! 3 \<in> {0x60, 0x61, 0x62} \<union> snd ` set builtinFunctionMap"
  shows "prepareBytes payload =
           payload @ [0x0f, word_of_int ((sum_list (map uint payload) + 0x0f + 0) mod 0x100)] \<and>
         (\<exists>st. decodeStatus (prepareBytes payload) = Inr st \<and>
               st_raw st = prepareBytes payload \<and>
               take (length payload) (st_raw st) = payload)"
proof -
  let ?f = "prepareBytes payload"
  have n2: "?f ! 2 = payload ! 2" and n3: "?f ! 3 = payload ! 3"
    using len by (simp_all add: prepareBytes_eq nth_append)
  have v: "verifyIntegrity ?f (None, initialResult) = (None, initialResult\<lparr>st_raw := ?f\<rparr>)"
    using len hd by (rule verify_prepared)
  obtain r1 where p: "readPower ?f (None, initialResult\<lparr>st_raw := ?f\<rparr>) = (None, r1)"
    and r1: "st_raw r1 = ?f"
    using pw by (auto simp: readPower_def n2)
  obtain r2 where m: "readMode ?f (None, r1) = (None, r2)" and r2: "st_raw r2 = ?f"
  proof (cases "payload ! 3 \<in> {0x60, 0x61, 0x62}")
    case True
    then show ?thesis using that r1 by (auto simp: readMode_def n3)
  next
    case False
    with md have "payload ! 3 \<in> snd ` set builtinFunctionMap" by simp
    then obtain n where n: "lookupFunctionName (payload ! 3) = Some n"
      using lookup_known by blast
    then have "n \<noteq> []" by (rule lookup_Some_nonempty)
    with n False show ?thesis using that r1 by (auto simp: readMode_def n3)
  qed
  obtain r3 where s: "readSpeed ?f (None, r2) = (None, r3)" and r3: "st_raw r3 = ?f"
    using r2 by (auto simp: readSpeed_def Let_def)
  obtain r4 where c: "readRGBW ?f (None, r3) = (None, r4)" and r4: "st_raw r4 = ?f"
    using r3 by (auto simp: readRGBW_def)
  have "decodeStatus ?f = Inr r4" by (simp add: decodeStatus_def v p m s c)
  moreover have "take (length payload) ?f = payload" by (simp add: prepareBytes_eq)
  moreover have "?f = payload @ [0x0f, word_of_int ((sum_list (map uint payload) + 0x0f + 0) mod 0x100)]"
    by (simp add: prepareBytes_eq checksumOf_def sumBytes_sum)
  ultimately show ?thesis using r4 by auto
qed

theorem checksum_roundtrip_witness:
  "length [0x81, 4, 0x23, 0x61, 0x21, 5, 10, 20, 30, 40, 3, 0 :: byte] = 12 \<and>
   [0x81, 4, 0x23, 0x61, 0x21, 5, 10, 20, 30, 40, 3, 0 :: byte] ! 0 = statusHeader \<and>
   (\<exists>st. decodeStatus (prepareBytes [0x81, 4, 0x23, 0x61, 0x21, 5, 10, 20, 30, 40, 3, 0]) = Inr st \<and>
         st_raw st = prepareBytes [0x81, 4, 0x23, 0x61, 0x21, 5, 10, 20, 30, 40, 3, 0] \<and>
         take (length [0x81, 4, 0x23, 0x61, 0x21, 5, 10, 20, 30, 40, 3, 0 :: byte]) (st_raw st) =
           [0x81, 4, 0x23, 0x61, 0x21, 5, 10, 20, 30, 40, 3, 0])"
proof -
  let ?p = "[0x81, 4, 0x23, 0x61, 0x21, 5, 10, 20, 30, 40, 3, 0 :: byte]"
  have l: "length ?p = 12" by simp
  have h: "?p ! 0 = statusHeader" by (simp add: statusHeader_def)
  have pw: "?p ! 2 = 0x23 \<or> ?p ! 2 = 0x24" by simp
  have md: "?p ! 3 \<in> {0x60, 0x61, 0x62} \<union> snd ` set builtinFunctionMap" by simp
  from checksum_roundtrip[OF l h pw md]
  have e: "\<exists>st. decodeStatus (prepareBytes ?p) = Inr st \<and> st_raw st = prepareBytes ?p \<and>
              take (length ?p) (st_raw st) = ?p"
    by (rule conjunct2)
  show ?thesis by (rule conjI[OF l conjI[OF h e]])
qed

text \<open>
  C2 as stated fails: the encoding of a payload that does not start with the status
  header is rejected by the decoder.
\<close>

theorem checksum_roundtrip_counterexample:
  "decodeStatus (prepareBytes [0, 0, 0, 0, 0, 0, 0, 0, 0, 0, 0, 0]) =
     Inl (StatusCheckFailed HeaderMismatch)"
  by (simp add: decodeStatus_def readRGBW_def readSpeed_def readMode_def readPower_def
    verifyIntegrity_def initialResult_def prepareBytes_eq statusHeader_def)

text \<open>
  C9.  In every status that the decoder accepts, the speed is defined exactly when the
  mode is \<open>custom\<close> or begins with \<open>function:\<close>; it is absent for \<open>static\<close> and \<open>other\<close>;
  for \<open>custom\<close> it is the custom flip of byte 5 minus 1, for \<open>function:*\<close> the built-in
  flip of byte 5.
\<close>

theorem speed_defined_iff_custom_or_function:
  assumes "decodeStatus frame = Inr st"
  shows "(st_speed st \<noteq> None \<longleftrightarrow>
            st_mode st = ''custom'' \<or> startsWith (st_mode st) ''function:'') \<and>
     (st_mode st = ''static'' \<or> st_mode st = ''other'' \<longrightarrow> st_speed st = None) \<and>
     (st_mode st = ''custom'' \<longrightarrow>
        st_speed st = Some (customFlipSpeed (uint (frame ! 5) - 1))) \<and>
     (startsWith (st_mode st) ''function:'' \<longrightarrow>
        st_speed st = Some (builtinFlipSpeed (uint (frame ! 5))))"
  using decode_cases[OF assms] by (auto simp: startsWith_def)

theorem speed_defined_iff_custom_or_function_witness:
  "decodeStatus [0x81, 4, 0x23, 0x60, 0x21, 6, 10, 20, 30, 40, 3, 0, 0x0f, 0xA5] =
     Inr \<lparr>st_raw = [0x81, 4, 0x23, 0x60, 0x21, 6, 10, 20, 30, 40, 3, 0, 0x0f, 0xA5],
          st_on = True, st_mode = ''custom'', st_speed = Some 25,
          st_red = 10, st_green = 20, st_blue = 30, st_white = 40\<rparr> \<and>
   customFlipSpeed (uint ([0x81, 4, 0x23, 0x60, 0x21, 6, 10, 20, 30, 40, 3, 0, 0x0f, 0xA5 :: byte] ! 5) - 1) = 25"
proof -
  let ?f = "[0x81, 4, 0x23, 0x60, 0x21, 6, 10, 20, 30, 40, 3, 0, 0x0f, 0xA5 :: byte]"
  let ?s = "\<lparr>st_raw = ?f, st_on = True, st_mode = ''custom'', st_speed = Some 25,
          st_red = 10, st_green = 20, st_blue = 30, st_white = 40\<rparr>"
  have d: "decodeStatus ?f = Inr ?s"
    by (simp add: decodeStatus_def readRGBW_def readSpeed_def readMode_def readPower_def
      verifyIntegrity_def initialResult_def statusHeader_def statusResponseSize_def
      writeUInt8_def checksumOf_def sumBytes_def startsWith_def customFlipSpeed_def
      lodash_clamp_def maxCustomSpeed_def emptyBuffer_def)
  from speed_defined_iff_custom_or_function[OF d] d show ?thesis by simp
qed

section \<open>Verification of the step list of \<open>custom\<close>\<close>

lemma isNullStep_eq: "isNullStep s \<longleftrightarrow> s = nullStep"
  by (cases s) (auto simp: isNullStep_def nullStep_def)

lemma padSteps_eq: "padSteps xs = xs @ replicate (maxCustomSteps - length xs) nullStep"
proof (induction xs rule: padSteps.induct)
  case (1 xs)
  show ?case
  proof (cases "length xs < maxCustomSteps")
    case True
    then have "maxCustomSteps - length xs = Suc (maxCustomSteps - length (xs @ [nullStep]))"
      by simp
    with 1 True show ?thesis
      by (subst padSteps.simps)
        (simp add: replicate_app_Cons_same del: padSteps.simps replicate_Suc
          add: replicate_Suc[symmetric])
  next
    case False
    then show ?thesis by simp
  qed
qed

lemma stepsCopy_eq: "stepsCopy steps = normalize_spec steps"
  unfolding stepsCopy_def normalize_spec_def padSteps_eq isNullStep_eq Let_def maxCustomSteps_def
  by (rule refl)

lemma clampRGBW_range: "0 \<le> clampRGBW v \<and> clampRGBW v \<le> 255"
  by (simp add: clampRGBW_def lodash_clamp_def)

lemma clamp_byte_eq:
  assumes "(word_of_int (clampRGBW v) :: byte) = word_of_int k"
    and "0 \<le> k" "k \<le> 255" "0 < k" "k < 255"
  shows "v = k"
proof -
  have "uint (word_of_int (clampRGBW v) :: byte) = uint (word_of_int k :: byte)"
    using assms(1) by simp
  then have "clampRGBW v = k"
    using clampRGBW_range[of v] assms(2,3) by (simp add: uint_byte_of_int)
  with assms(4,5) show ?thesis
    by (auto simp: clampRGBW_def lodash_clamp_def split: if_splits)
qed

lemma stepBytes_inj:
  assumes "stepBytes s = stepBytes nullStep"
  shows "isNullStep s"
proof -
  have c1: "clampRGBW 1 = 1" and c2: "clampRGBW 2 = 2" and c3: "clampRGBW 3 = 3"
    by (simp_all add: clampRGBW_def lodash_clamp_def)
  from assms have
    r: "(word_of_int (clampRGBW (red s)) :: byte) = word_of_int 1" and
    g: "(word_of_int (clampRGBW (green s)) :: byte) = word_of_int 2" and
    b: "(word_of_int (clampRGBW (blue s)) :: byte) = word_of_int 3"
    by (simp_all add: stepBytes_def nullStep_def c1 c2 c3)
  have "red s = 1" by (rule clamp_byte_eq[OF r]) simp_all
  moreover have "green s = 2" by (rule clamp_byte_eq[OF g]) simp_all
  moreover have "blue s = 3" by (rule clamp_byte_eq[OF b]) simp_all
  ultimately show ?thesis by (simp add: isNullStep_def nullStep_def)
qed

lemma writeStep_eq:
  assumes "i + 4 \<le> length buf"
  shows "writeStep x (buf, i) = (take i buf @ stepBytes x @ drop (i + 4) buf, i + 4)"
proof -
  have "buf[i := a, Suc i := b, Suc (Suc i) := c, Suc (Suc (Suc i)) := d] =
        take i buf @ [a, b, c, d] @ drop (i + 4) buf" for a b c d
    using assms by (intro nth_equalityI) (auto simp: nth_append nth_list_update nth_Cons')
  then show ?thesis
    by (simp add: writeStep_def writeUInt8_def stepBytes_def Let_def)
qed

lemma writeStep_fold:
  "i + 4 * length xs \<le> length buf \<Longrightarrow>
   fold writeStep xs (buf, i) =
     (take i buf @ concat (map stepBytes xs) @ drop (i + 4 * length xs) buf, i + 4 * length xs)"
proof (induction xs arbitrary: buf i)
  case Nil
  then show ?case by simp
next
  case (Cons x xs)
  define a where "a = take i buf @ stepBytes x"
  define m where "m = 4 * length xs"
  have i4: "i + 4 \<le> length buf" using Cons.prems by simp
  have la: "length a = i + 4" using i4 by (simp add: a_def stepBytes_def)
  have len: "length (a @ drop (i + 4) buf) = length buf" using i4 la by simp
  have tk: "take (i + 4) (a @ drop (i + 4) buf) = a" using la by simp
  have dr: "drop (i + 4 + m) (a @ drop (i + 4) buf) = drop (i + 4 + m) buf"
    using la by (simp add: add.commute)
  have "fold writeStep (x # xs) (buf, i) = fold writeStep xs (a @ drop (i + 4) buf, i + 4)"
    by (simp add: writeStep_eq[OF i4] a_def)
  also have "\<dots> = (take (i + 4) (a @ drop (i + 4) buf) @ concat (map stepBytes xs) @
                     drop (i + 4 + m) (a @ drop (i + 4) buf), i + 4 + m)"
    unfolding m_def using Cons.prems len by (intro Cons.IH) simp
  also have "\<dots> = (a @ concat (map stepBytes xs) @ drop (i + 4 + m) buf, i + 4 + m)"
    by (simp only: tk dr)
  finally show ?case by (simp add: a_def m_def add.assoc)
qed

lemma length_pad_take:
  "length (take n xs @ replicate (n - length (take n xs)) y) = n"
  by simp

lemma length_stepsCopy: "length (stepsCopy steps) = maxCustomSteps"
  unfolding stepsCopy_def padSteps_eq by (rule length_pad_take)

lemma length_concat_stepBytes: "length (concat (map stepBytes xs)) = 4 * length xs"
  by (induction xs) (simp_all add: stepBytes_def)

lemma custom_tail:
  assumes "fold writeStep xs (b, i) = (p @ [a0, a1, a2], n)" and "length p = n"
  shows "(case fold writeStep xs (b, i) of
            (buf, index) \<Rightarrow>
              writeUInt8 z (index + 1 + 1) ((writeUInt8 x index buf)[index + 1 := y])) =
         p @ [word_of_int x, y, word_of_int z]"
  using assms(2) by (simp add: assms(1) writeUInt8_def list_update_append)

lemma replicate_68: "(replicate 68 (0::byte))[0 := v] = v # replicate 64 0 @ [0, 0, 0]"
  by code_simp

text \<open>The 68 bytes of the \<open>custom\<close> command: the header, 16 steps of 4 bytes, the tail.\<close>

lemma customBuffer_eq:
  "customBuffer modeId speed steps =
     [0x51] @ concat (map stepBytes (stepsCopy steps)) @
     [word_of_int (customFlipSpeed speed + 1), modeId, 0xFF]"
proof -
  define b0 where "b0 = writeUInt8 0x51 0 (replicate 68 0)"
  define c where "c = concat (map stepBytes (stepsCopy steps))"
  define p where "p = [0x51 :: byte] @ c"
  have l16: "length (stepsCopy steps) = 16"
    by (simp only: length_stepsCopy maxCustomSteps_def)
  have lc: "length c = 64" by (simp add: c_def length_concat_stepBytes l16)
  have lp: "length p = 65" by (simp add: p_def lc)
  have b0: "b0 = 0x51 # replicate 64 0 @ [0, 0, 0]"
    unfolding b0_def writeUInt8_def by (simp only: replicate_68) simp
  have d: "drop 65 b0 = [0, 0, 0]" unfolding b0 by simp
  have t: "take (Suc 0) b0 = [0x51]" unfolding b0 by simp
  have g: "fold writeStep (stepsCopy steps) (b0, 1) =
      (take 1 b0 @ c @ drop (1 + 4 * length (stepsCopy steps)) b0,
       1 + 4 * length (stepsCopy steps))"
    unfolding c_def by (rule writeStep_fold) (simp add: b0 l16)
  have f: "fold writeStep (stepsCopy steps) (b0, 1) = (p @ [0, 0, 0], 65)"
    unfolding g l16 p_def by (simp add: t d)
  have "customBuffer modeId speed steps =
          p @ [word_of_int (customFlipSpeed speed + 1), modeId, word_of_int 0xFF]"
    unfolding customBuffer_def Let_def b0_def[symmetric]
    using f lp by (rule custom_tail)
  then show ?thesis by (simp add: p_def c_def)
qed

text \<open>
  \<open>custom\<close> on a channel that is not dead, with a valid mode: the one call on the socket is
  the write of the framed command buffer.
\<close>

lemma custom_writes_buffer:
  assumes "\<not> dead c" and "customModeId mode = Some modeId"
  shows "calls (snd (custom mode speed steps c)) =
           calls c @ [Write (prepareBytes (customBuffer modeId speed steps))]"
  using assms by (simp add: custom_def newPromise_def writePromise_def)

text \<open>
  C4.  The step list that \<open>custom\<close> writes is the caller's list without the null steps,
  cut to 16 and padded with null steps to 16 (\<open>normalize_spec\<close>, in the words of the
  specification).  So it has length 16, no step before position
  \<open>min 16 (number of non-null input steps)\<close> is a null step (nor are its four wire bytes
  those of the null step), and its non-null steps are the first 16 non-null steps of the
  input in their order.  The command buffer is the byte \<open>0x51\<close>, the four bytes of each
  of these 16 steps, the speed byte, the mode byte and \<open>0xFF\<close>; and on a channel that is
  not dead, with one of the three mode names, \<open>custom\<close> makes exactly one call on the
  socket: the write of this buffer, framed by \<open>prepareBytes\<close>.
\<close>

theorem steps_normalized:
  "stepsCopy steps = normalize_spec steps \<and>
   length (stepsCopy steps) = 16 \<and>
   (\<forall>i < min 16 (length (filter (\<lambda>s. \<not> isNullStep s) steps)).
       \<not> isNullStep (stepsCopy steps ! i) \<and>
       stepBytes (stepsCopy steps ! i) \<noteq> stepBytes nullStep) \<and>
   filter (\<lambda>s. \<not> isNullStep s) (stepsCopy steps) =
     take 16 (filter (\<lambda>s. \<not> isNullStep s) steps) \<and>
   customBuffer modeId speed steps =
     [0x51] @ concat (map stepBytes (stepsCopy steps)) @
     [word_of_int (customFlipSpeed speed + 1), modeId, 0xFF] \<and>
   (\<not> dead c \<and> customModeId mode = Some modeId \<longrightarrow>
      calls (snd (custom mode speed steps c)) =
        calls c @
        [Write (prepareBytes
           ([0x51] @ concat (map stepBytes (stepsCopy steps)) @
            [word_of_int (customFlipSpeed speed + 1), modeId, 0xFF]))])"
proof -
  define nonNull where "nonNull = filter (\<lambda>s. \<not> isNullStep s) steps"
  define kept where "kept = take maxCustomSteps nonNull"
  define pad where "pad = replicate (maxCustomSteps - length kept) nullStep"
  have sc: "stepsCopy steps = kept @ pad"
    by (simp only: stepsCopy_def padSteps_eq kept_def pad_def nonNull_def)
  have nn: "\<not> isNullStep s" if "s \<in> set kept" for s
  proof -
    from that have "s \<in> set nonNull" unfolding kept_def by (rule in_set_takeD)
    then show ?thesis by (simp add: nonNull_def)
  qed
  have lk: "length kept = min 16 (length nonNull)"
    unfolding kept_def maxCustomSteps_def by (simp only: length_take min.commute)
  have a: "\<not> isNullStep (stepsCopy steps ! i) \<and>
           stepBytes (stepsCopy steps ! i) \<noteq> stepBytes nullStep"
    if "i < min 16 (length nonNull)" for i
  proof -
    from that have i: "i < length kept" by (simp only: lk)
    then have "stepsCopy steps ! i = kept ! i" by (simp only: sc nth_append if_True)
    moreover have "kept ! i \<in> set kept" using i by (rule nth_mem)
    ultimately have "\<not> isNullStep (stepsCopy steps ! i)" using nn by simp
    then show ?thesis using stepBytes_inj by blast
  qed
  have fk: "filter (\<lambda>s. \<not> isNullStep s) kept = kept"
    using nn by (simp only: filter_id_conv) blast
  have fp: "filter (\<lambda>s. \<not> isNullStep s) pad = []"
    unfolding pad_def by (simp add: isNullStep_eq)
  have b: "filter (\<lambda>s. \<not> isNullStep s) (stepsCopy steps) = take 16 nonNull"
    unfolding sc filter_append fk fp by (simp only: kept_def maxCustomSteps_def append_Nil2)
  have c: "length (stepsCopy steps) = 16"
    by (simp only: length_stepsCopy maxCustomSteps_def)
  have w: "calls (snd (custom mode speed steps c)) =
        calls c @
        [Write (prepareBytes
           ([0x51] @ concat (map stepBytes (stepsCopy steps)) @
            [word_of_int (customFlipSpeed speed + 1), modeId, 0xFF]))]"
    if "\<not> dead c \<and> customModeId mode = Some modeId"
  proof -
    from that have "calls (snd (custom mode speed steps c)) =
           calls c @ [Write (prepareBytes (customBuffer modeId speed steps))]"
      by (intro custom_writes_buffer) simp_all
    then show ?thesis by (simp only: customBuffer_eq)
  qed
  show ?thesis
  proof (intro conjI allI impI)
    show "stepsCopy steps = normalize_spec steps" by (rule stepsCopy_eq)
    show "length (stepsCopy steps) = 16" by (rule c)
    show "filter (\<lambda>s. \<not> isNullStep s) (stepsCopy steps) =
            take 16 (filter (\<lambda>s. \<not> isNullStep s) steps)"
      using b by (simp only: nonNull_def)
    show "customBuffer modeId speed steps =
            [0x51] @ concat (map stepBytes (stepsCopy steps)) @
            [word_of_int (customFlipSpeed speed + 1), modeId, 0xFF]"
      by (rule customBuffer_eq)
  next
    fix i assume "i < min 16 (length (filter (\<lambda>s. \<not> isNullStep s) steps))"
    then have "i < min 16 (length nonNull)" by (simp only: nonNull_def)
    from a[OF this] show "\<not> isNullStep (stepsCopy steps ! i)"
      and "stepBytes (stepsCopy steps ! i) \<noteq> stepBytes nullStep" by blast+
  next
    assume "\<not> dead c \<and> customModeId mode = Some modeId"
    then show "calls (snd (custom mode speed steps c)) =
        calls c @
        [Write (prepareBytes
           ([0x51] @ concat (map stepBytes (stepsCopy steps)) @
            [word_of_int (customFlipSpeed speed + 1), modeId, 0xFF]))]"
      by (rule w)
  qed
qed

theorem steps_normalized_witness:
  "(1::nat) < min 16 (length (filter (\<lambda>s. \<not> isNullStep s)
       [nullStep, \<lparr>red = 10, green = 20, blue = 30\<rparr>, nullStep, \<lparr>red = 0, green = 0, blue = 0\<rparr>])) \<and>
   length (stepsCopy
       [nullStep, \<lparr>red = 10, green = 20, blue = 30\<rparr>, nullStep, \<lparr>red = 0, green = 0, blue = 0\<rparr>]) = 16 \<and>
   \<not> isNullStep (stepsCopy
       [nullStep, \<lparr>red = 10, green = 20, blue = 30\<rparr>, nullStep, \<lparr>red = 0, green = 0, blue = 0\<rparr>] ! 1) \<and>
   \<not> dead (newTcpClient True True) \<and> customModeId ''jumping'' = Some 0x3B \<and>
   calls (snd (custom ''jumping'' 30
       [nullStep, \<lparr>red = 10, green = 20, blue = 30\<rparr>, nullStep, \<lparr>red = 0, green = 0, blue = 0\<rparr>]
       (newTcpClient True True))) =
     calls (newTcpClient True True) @
     [Write (prepareBytes
        ([0x51] @
         concat (map stepBytes (stepsCopy
           [nullStep, \<lparr>red = 10, green = 20, blue = 30\<rparr>, nullStep,
            \<lparr>red = 0, green = 0, blue = 0\<rparr>])) @
         [word_of_int (customFlipSpeed 30 + 1), 0x3B, 0xFF]))]"
proof -
  let ?steps = "[nullStep, \<lparr>red = 10, green = 20, blue = 30\<rparr>, nullStep,
                 \<lparr>red = 0, green = 0, blue = 0\<rparr>]"
  note t = steps_normalized[of ?steps "0x3B" 30 "newTcpClient True True" "''jumping''"]
  have i: "(1::nat) < min 16 (length (filter (\<lambda>s. \<not> isNullStep s) ?steps))"
    by (simp add: isNullStep_def nullStep_def)
  have d: "\<not> dead (newTcpClient True True)"
    by (simp add: newTcpClient_def createSocket_def)
  have m: "customModeId ''jumping'' = Some 0x3B"
    by (simp add: customModeId_def)
  from t have l: "length (stepsCopy ?steps) = 16"
    by (elim conjE)
  from t have a: "\<forall>i < min 16 (length (filter (\<lambda>s. \<not> isNullStep s) ?steps)).
          \<not> isNullStep (stepsCopy ?steps ! i) \<and>
          stepBytes (stepsCopy ?steps ! i) \<noteq> stepBytes nullStep"
    by (elim conjE)
  from t have w: "\<not> dead (newTcpClient True True) \<and> customModeId ''jumping'' = Some 0x3B \<longrightarrow>
      calls (snd (custom ''jumping'' 30 ?steps (newTcpClient True True))) =
        calls (newTcpClient True True) @
        [Write (prepareBytes
           ([0x51] @ concat (map stepBytes (stepsCopy ?steps)) @
            [word_of_int (customFlipSpeed 30 + 1), 0x3B, 0xFF]))]"
    by (elim conjE)
  from a i have n: "\<not> isNullStep (stepsCopy ?steps ! 1)" by blast
  from w d m have w': "calls (snd (custom ''jumping'' 30 ?steps (newTcpClient True True))) =
        calls (newTcpClient True True) @
        [Write (prepareBytes
           ([0x51] @ concat (map stepBytes (stepsCopy ?steps)) @
            [word_of_int (customFlipSpeed 30 + 1), 0x3B, 0xFF]))]"
    by blast
  show ?thesis by (intro conjI i l n d m w')
qed

text \<open>The 70 bytes that \<open>custom\<close> writes for a list of four steps, two of them null.\<close>

lemma custom_example:
  "calls (snd (custom ''jumping'' 30
       [nullStep, \<lparr>red = 10, green = 20, blue = 30\<rparr>, nullStep, \<lparr>red = 0, green = 0, blue = 0\<rparr>]
       (newTcpClient True True))) =
   calls (newTcpClient True True) @
   [Write ([0x51, 10, 20, 30, 0, 0, 0, 0, 0] @ concat (replicate 14 [1, 2, 3, 0]) @
           [1, 0x3B, 0xFF, 0x0F, 43])]"
  by code_simp

section \<open>Verification of the TCP channel\<close>

subsection \<open>Promises\<close>

lemma settle1_frame: "settle1 p r c = c\<lparr>promises := promises (settle1 p r c)\<rparr>"
  by (simp add: settle1_def)

lemma fold_settle1_frame:
  "fold (\<lambda>q. settle1 q r) qs c = c\<lparr>promises := promises (fold (\<lambda>q. settle1 q r) qs c)\<rparr>"
proof (induction qs arbitrary: c)
  case Nil
  show ?case by simp
next
  case (Cons q qs)
  have "fold (\<lambda>q. settle1 q r) (q # qs) c = fold (\<lambda>q. settle1 q r) qs (settle1 q r c)"
    by simp
  also have "\<dots> =
      (settle1 q r c)\<lparr>promises := promises (fold (\<lambda>q. settle1 q r) qs (settle1 q r c))\<rparr>"
    by (rule Cons.IH)
  also have "\<dots> = c\<lparr>promises := promises (fold (\<lambda>q. settle1 q r) qs (settle1 q r c))\<rparr>"
    by (subst settle1_frame) simp
  finally show ?case by simp
qed

text \<open>Settling a promise changes nothing but the list of promises.\<close>

lemma settle_frame: "settle p r c = c\<lparr>promises := promises (settle p r c)\<rparr>"
proof (cases "p < length (promises c) \<and> promises c ! p = None")
  case True
  then have "settle p r c =
      fold (\<lambda>q. settle1 q (follow r)) (map snd (filter (\<lambda>pq. fst pq = p) (thens c)))
        (settle1 p r c)"
    by (simp add: settle_def)
  also have "\<dots> = (settle1 p r c)\<lparr>promises := promises \<dots>\<rparr>"
    by (rule fold_settle1_frame)
  also have "\<dots> = c\<lparr>promises := promises (settle p r c)\<rparr>"
    using True by (subst settle1_frame) (simp add: settle_def)
  finally show ?thesis .
next
  case False
  then have "settle p r c = c" by (auto simp: settle_def)
  then show ?thesis by simp
qed

lemma settle_fields:
  "dead (settle p r c) = dead c"
  "calls (settle p r c) = calls c"
  "statusCache (settle p r c) = statusCache c"
  "options_cache (settle p r c) = options_cache c"
  "options_immediate (settle p r c) = options_immediate c"
  "writeCallbacks (settle p r c) = writeCallbacks c"
  "connectFailed (settle p r c) = connectFailed c"
  "error (settle p r c) = error c"
  "thens (settle p r c) = thens c"
  "errorListeners (settle p r c) = errorListeners c"
  "connectListeners (settle p r c) = connectListeners c"
  "statusCallback (settle p r c) = statusCallback c"
  "disconnectCallback (settle p r c) = disconnectCallback c"
  "statusArray (settle p r c) = statusArray c"
  "statusIndex (settle p r c) = statusIndex c"
  by (subst settle_frame, simp)+

lemma length_settle1: "length (promises (settle1 p r c)) = length (promises c)"
  by (simp add: settle1_def)

lemma settle1_keeps:
  "p < length (promises c) \<Longrightarrow> promises c ! p = Some r \<Longrightarrow>
   promises (settle1 q r' c) ! p = Some r"
  by (auto simp: settle1_def nth_list_update)

lemma fold_settle1_keeps:
  "p < length (promises c) \<Longrightarrow> promises c ! p = Some r \<Longrightarrow>
   p < length (promises (fold (\<lambda>q. settle1 q r') qs c)) \<and>
   promises (fold (\<lambda>q. settle1 q r') qs c) ! p = Some r"
  by (induction qs arbitrary: c) (simp_all add: settle1_keeps length_settle1)

text \<open>A pending promise is settled with the value it is first resolved or rejected with.\<close>

lemma settle_new:
  assumes "p < length (promises c)" "promises c ! p = None"
  shows "promiseState p (settle p r c) = Some r"
proof -
  have "p < length (promises (settle1 p r c))" "promises (settle1 p r c) ! p = Some r"
    using assms by (simp_all add: settle1_def)
  from fold_settle1_keeps[OF this] show ?thesis
    using assms by (simp add: settle_def promiseState_def)
qed

lemma settle_fresh:
  "promiseState (length (promises c))
     (settle (length (promises c)) r (c\<lparr>promises := promises c @ [None]\<rparr>)) = Some r"
  by (rule settle_new) simp_all

lemma thenResolve_fields:
  "dead (thenResolve p q c) = dead c"
  "statusCache (thenResolve p q c) = statusCache c"
  "calls (thenResolve p q c) = calls c"
  by (simp_all add: thenResolve_def settle_fields split: option.splits)

subsection \<open>What the methods and the event handlers do to \<open>_dead\<close>\<close>

lemmas call_defs = on_def off_def rgbw_def status_def builtin_def custom_def connect_def
  newPromise_def writePromise_def

lemma dead_calls:
  "dead (snd (connect c)) = dead c"
  "dead (snd (status force c)) = dead c"
  "dead (snd (on c)) = dead c"
  "dead (snd (off c)) = dead c"
  "dead (snd (rgbw r g b w c)) = dead c"
  "dead (snd (builtin name speed c)) = dead c"
  "dead (snd (custom mode speed steps c)) = dead c"
  by (simp_all add: call_defs settle_fields Let_def split: option.splits)

lemma dead_updateStatusCache: "dead (updateStatusCache f c) = dead c"
  by (simp add: updateStatusCache_def split: option.splits)

lemma dead_unsetStatusCache: "dead (unsetStatusCache path c) = dead c"
  by (simp add: unsetStatusCache_def split: option.splits)

lemma dead_written: "dead (written cb c) = dead c"
  by (cases cb)
    (simp_all add: written_def settle_fields dead_updateStatusCache dead_unsetStatusCache Let_def)

lemma dead_onWritten: "dead (onWritten c) = dead c"
  by (simp add: onWritten_def dead_written split: list.splits)

lemma dead_connected: "dead (connected p c) = dead c"
proof -
  define c1 where
    "c1 = c\<lparr>errorListeners := remove1 (ConnectFailure p) (errorListeners c) @ [RecordError]\<rparr>"
  obtain ps c2 where s: "status False c1 = (ps, c2)" by (cases "status False c1")
  have "dead c2 = dead c1" using dead_calls(2)[of False c1] by (simp add: s)
  moreover have "dead c1 = dead c" by (simp add: c1_def)
  ultimately show ?thesis
    by (simp add: connected_def Let_def c1_def[symmetric] s settle_fields thenResolve_fields)
qed

lemma dead_fold_connected: "dead (fold connected ps c) = dead c"
  by (induction ps arbitrary: c) (simp_all add: dead_connected)

lemma dead_onConnect: "dead (onConnect c) = dead c"
  by (simp add: onConnect_def dead_fold_connected)

lemma dead_runErrorListener: "dead (runErrorListener err l c) = dead c"
  by (cases l) (simp_all add: runErrorListener_def settle_fields)

lemma dead_fold_runErrorListener: "dead (fold (runErrorListener err) ls c) = dead c"
  by (induction ls arbitrary: c) (simp_all add: dead_runErrorListener)

lemma dead_onError: "onError err c = Inr c' \<Longrightarrow> dead c' = dead c"
  by (auto simp: onError_def dead_fold_runErrorListener split: if_splits)

lemma dead_runStatusCallback: "dead (runStatusCallback p r c) = dead c"
  by (cases r) (simp_all add: runStatusCallback_def Let_def settle_fields)

lemma dead_receiveStatus: "receiveStatus data c = Inr c' \<Longrightarrow> dead c' = dead c"
  by (auto simp: receiveStatus_def Let_def dead_runStatusCallback
      split: if_splits option.splits)

text \<open>The close handler never revives a channel that is marked dead.\<close>

lemma dead_closeSocket: "dead c \<Longrightarrow> dead (closeSocket c)"
  by (simp add: closeSocket_def Let_def)

lemma dead_disconnect: "dead (disconnect c)"
  by (simp add: disconnect_def closeSocket_def Let_def)

lemma dead_step: "dead c \<Longrightarrow> step ev c = Inr c' \<Longrightarrow> dead c'"
  by (cases ev)
    (auto simp: step_def dead_calls dead_onConnect dead_onWritten dead_closeSocket
      dead_disconnect dest: dead_onError dead_receiveStatus)

lemma dead_run: "dead c \<Longrightarrow> run evs c = Inr c' \<Longrightarrow> dead c'"
proof (induction evs arbitrary: c)
  case Nil
  then show ?case by simp
next
  case (Cons ev evs)
  from Cons.prems(2) obtain c1 where s: "step ev c = Inr c1" and r: "run evs c1 = Inr c'"
    by (auto split: sum.splits)
  from dead_step[OF Cons.prems(1) s] have "dead c1" .
  from Cons.IH[OF this r] show ?case .
qed

lemma dead_noop:
  assumes "dead c"
  shows "(case on c of (p, c') \<Rightarrow> promiseState p c' = Some (Resolved None) \<and> calls c' = calls c) \<and>
    (case off c of (p, c') \<Rightarrow> promiseState p c' = Some (Resolved None) \<and> calls c' = calls c) \<and>
    (case rgbw r g b w c of (p, c') \<Rightarrow>
        promiseState p c' = Some (Resolved None) \<and> calls c' = calls c) \<and>
    (case status force c of (p, c') \<Rightarrow>
        promiseState p c' = Some (Resolved None) \<and> calls c' = calls c)"
  using assms by (simp add: call_defs settle_fields settle_fresh)

text \<open>
  C5.  In every state that the channel can be in after \<open>disconnect()\<close>, whatever methods
  were called and whatever socket events arrived in between, \<open>on()\<close>, \<open>off()\<close> and
  \<open>rgbw(...)\<close> resolve at once with no value, and \<open>status()\<close> resolves at once with
  \<open>null\<close>; none of them calls anything on the socket (so nothing is written) and none is
  rejected.
\<close>

theorem dead_channel_noop:
  assumes "run evs (disconnect c) = Inr c'"
  shows "dead c' \<and>
    (case on c' of (p, c'') \<Rightarrow> promiseState p c'' = Some (Resolved None) \<and> calls c'' = calls c') \<and>
    (case off c' of (p, c'') \<Rightarrow> promiseState p c'' = Some (Resolved None) \<and> calls c'' = calls c') \<and>
    (case rgbw r g b w c' of (p, c'') \<Rightarrow>
        promiseState p c'' = Some (Resolved None) \<and> calls c'' = calls c') \<and>
    (case status force c' of (p, c'') \<Rightarrow>
        promiseState p c'' = Some (Resolved None) \<and> calls c'' = calls c')"
proof -
  have d: "dead c'" using dead_disconnect assms by (rule dead_run)
  from d dead_noop[OF d] show ?thesis by (rule conjI)
qed

lemma replicate_14: "replicate 14 (0::byte) = [0, 0, 0, 0, 0, 0, 0, 0, 0, 0, 0, 0, 0, 0]"
  by code_simp

theorem dead_channel_noop_witness:
  "\<exists>c'. run [SocketClosed, CallOn] (disconnect (newTcpClient True True)) = Inr c' \<and>
     dead c' \<and>
     calls c' = [NewSocket, SetNoDelay True, Pause, End, Unref, Destroy, OnTcpDead None None,
                 Unref, Destroy, OnTcpDead None None] \<and>
     (case rgbw 10 20 30 40 c' of (p, c'') \<Rightarrow>
        promiseState p c'' = Some (Resolved None) \<and> calls c'' = calls c') \<and>
     (case status False c' of (p, c'') \<Rightarrow>
        promiseState p c'' = Some (Resolved None) \<and> calls c'' = calls c')"
proof -
  define c' where "c' =
    \<lparr>options_immediate = True, options_cache = True, dead = True,
     connectFailed = False, disconnectCallback = None,
     statusArray = [0, 0, 0, 0, 0, 0, 0, 0, 0, 0, 0, 0, 0, 0 :: byte],
     statusIndex = 0, statusCache = None, error = None,
     statusCallback = None, errorListeners = [], connectListeners = [],
     writeCallbacks = [],
     calls = [NewSocket, SetNoDelay True, Pause, End, Unref, Destroy, OnTcpDead None None,
              Unref, Destroy, OnTcpDead None None],
     promises = [Some (Resolved None)], thens = []\<rparr>"
  have r: "run [SocketClosed, CallOn] (disconnect (newTcpClient True True)) = Inr c'"
    unfolding c'_def
    by (simp add: step_def disconnect_def closeSocket_def newTcpClient_def createSocket_def
        on_def newPromise_def settle_def settle1_def Let_def statusResponseSize_def replicate_14)
  have k: "calls c' = [NewSocket, SetNoDelay True, Pause, End, Unref, Destroy,
                       OnTcpDead None None, Unref, Destroy, OnTcpDead None None]"
    by (simp add: c'_def)
  note n = dead_channel_noop[OF r, of 10 20 30 40 False]
  have d: "dead c'" using n by (rule conjunct1)
  have g: "(case rgbw 10 20 30 40 c' of (p, c'') \<Rightarrow>
        promiseState p c'' = Some (Resolved None) \<and> calls c'' = calls c')"
    using n by (elim conjE)
  have s: "(case status False c' of (p, c'') \<Rightarrow>
        promiseState p c'' = Some (Resolved None) \<and> calls c'' = calls c')"
    using n by (elim conjE)
  show ?thesis
    by (rule exI[of _ c']) (intro conjI r d k g s)
qed

subsection \<open>The close handler\<close>

lemma closeSocket_reconnect:
  assumes "\<not> connectFailed c" "\<not> dead c" "error c = None"
  shows "calls (closeSocket c) =
           calls c @ [Unref, Destroy, NewSocket, SetNoDelay (options_immediate c), Pause, Connect]"
    and "\<not> dead (closeSocket c)" and "\<not> connectFailed (closeSocket c)"
    and "error (closeSocket c) = None"
    and "connectListeners (closeSocket c) = [length (promises c)]"
  using assms
  by (simp_all add: closeSocket_def createSocket_def connect_def newPromise_def Let_def)

lemma closeSocket_iterate:
  assumes "\<not> connectFailed c" "\<not> dead c" "error c = None"
  shows "\<not> connectFailed ((closeSocket ^^ n) c) \<and> \<not> dead ((closeSocket ^^ n) c) \<and>
         error ((closeSocket ^^ n) c) = None \<and>
         length (filter (\<lambda>x. x = Connect) (calls ((closeSocket ^^ n) c))) =
           length (filter (\<lambda>x. x = Connect) (calls c)) + n"
proof (induction n)
  case 0
  show ?case using assms by simp
next
  case (Suc n)
  define d where "d = (closeSocket ^^ n) c"
  from Suc have d: "\<not> connectFailed d" "\<not> dead d" "error d = None"
    and l: "length (filter (\<lambda>x. x = Connect) (calls d)) =
            length (filter (\<lambda>x. x = Connect) (calls c)) + n"
    by (simp_all add: d_def)
  have "(closeSocket ^^ Suc n) c = closeSocket d" by (simp add: d_def)
  then show ?case
    using closeSocket_reconnect[OF d] l by simp
qed

text \<open>
  C1, as the code has it: the two cases of the claim hold for a close notification that
  arrives while the connect attempt of the current socket has not failed.  With no error
  recorded and the channel not marked dead, the handler tears the socket down, creates a
  new one and calls \<open>connect()\<close>, and the channel is not dead afterwards; this repeats for
  any number of close notifications, each adding one connect attempt.  With an error
  recorded, or the channel already marked dead, there is no new socket and no connect
  attempt, the channel is dead afterwards and the owning object is notified with the
  recorded error.
\<close>

theorem close_reconnects_or_dies:
  assumes "\<not> connectFailed c"
  shows "(\<not> dead c \<and> error c = None \<longrightarrow>
            calls (closeSocket c) =
              calls c @ [Unref, Destroy, NewSocket, SetNoDelay (options_immediate c), Pause,
                         Connect] \<and>
            connectListeners (closeSocket c) = [length (promises c)] \<and>
            \<not> dead (closeSocket c) \<and>
            (\<forall>n. \<not> dead ((closeSocket ^^ n) c) \<and>
                 length (filter (\<lambda>x. x = Connect) (calls ((closeSocket ^^ n) c))) =
                   length (filter (\<lambda>x. x = Connect) (calls c)) + n)) \<and>
         (dead c \<or> error c \<noteq> None \<longrightarrow>
            calls (closeSocket c) =
              calls c @ [Unref, Destroy, OnTcpDead (error c) (disconnectCallback c)] \<and>
            dead (closeSocket c))"
proof (intro conjI impI)
  assume a: "\<not> dead c \<and> error c = None"
  then have d: "\<not> dead c" and e: "error c = None" by simp_all
  show "calls (closeSocket c) =
          calls c @ [Unref, Destroy, NewSocket, SetNoDelay (options_immediate c), Pause, Connect]"
    using assms d e by (rule closeSocket_reconnect)
  show "connectListeners (closeSocket c) = [length (promises c)]"
    using assms d e by (rule closeSocket_reconnect)
  show "\<not> dead (closeSocket c)"
    using assms d e by (rule closeSocket_reconnect)
  show "\<forall>n. \<not> dead ((closeSocket ^^ n) c) \<and>
            length (filter (\<lambda>x. x = Connect) (calls ((closeSocket ^^ n) c))) =
              length (filter (\<lambda>x. x = Connect) (calls c)) + n"
    using closeSocket_iterate[OF assms d e] by blast
next
  assume "dead c \<or> error c \<noteq> None"
  then show "calls (closeSocket c) =
          calls c @ [Unref, Destroy, OnTcpDead (error c) (disconnectCallback c)]"
    using assms by (auto simp: closeSocket_def Let_def)
next
  assume "dead c \<or> error c \<noteq> None"
  then show "dead (closeSocket c)"
    using assms by (auto simp: closeSocket_def Let_def)
qed

theorem close_reconnects_or_dies_witness:
  "\<not> connectFailed (newTcpClient True False) \<and>
   \<not> dead (newTcpClient True False) \<and> error (newTcpClient True False) = None \<and>
   calls (closeSocket (newTcpClient True False)) =
     [NewSocket, SetNoDelay True, Pause, Unref, Destroy, NewSocket, SetNoDelay True, Pause,
      Connect] \<and>
   \<not> dead (closeSocket (newTcpClient True False)) \<and>
   error ((newTcpClient True False)\<lparr>error := Some (SocketError ''ECONNRESET'')\<rparr>) \<noteq> None \<and>
   calls (closeSocket ((newTcpClient True False)\<lparr>error := Some (SocketError ''ECONNRESET'')\<rparr>)) =
     [NewSocket, SetNoDelay True, Pause, Unref, Destroy,
      OnTcpDead (Some (SocketError ''ECONNRESET'')) None] \<and>
   dead (closeSocket ((newTcpClient True False)\<lparr>error := Some (SocketError ''ECONNRESET'')\<rparr>))"
proof -
  let ?c = "newTcpClient True False"
  let ?e = "?c\<lparr>error := Some (SocketError ''ECONNRESET'')\<rparr>"
  have c: "\<not> connectFailed ?c" "\<not> dead ?c" "error ?c = None"
    "calls ?c = [NewSocket, SetNoDelay True, Pause]" "options_immediate ?c"
    by (simp_all add: newTcpClient_def createSocket_def)
  have e: "\<not> connectFailed ?e" "error ?e = Some (SocketError ''ECONNRESET'')"
    "calls ?e = [NewSocket, SetNoDelay True, Pause]" "disconnectCallback ?e = None"
    by (simp_all add: newTcpClient_def createSocket_def)
  from close_reconnects_or_dies[OF c(1)] close_reconnects_or_dies[OF e(1)] c e
  show ?thesis by simp
qed

text \<open>
  C1 as stated fails after a failed connect: the connect attempt of a new client is
  refused, so the channel is not marked dead and \<open>_error\<close> is empty, and the close
  notification that follows changes nothing: no new socket, no second connect attempt, no
  notification of the owning object.
\<close>

theorem close_reconnects_or_dies_counterexample:
  "run [CallConnect, SocketFailed (SocketError ''ECONNREFUSED'')] (newTcpClient True True) =
     Inr \<lparr>options_immediate = True, options_cache = True, dead = False,
          connectFailed = True, disconnectCallback = None,
          statusArray = [0, 0, 0, 0, 0, 0, 0, 0, 0, 0, 0, 0, 0, 0],
          statusIndex = 0, statusCache = None, error = None,
          statusCallback = None, errorListeners = [ConnectFailure 0],
          connectListeners = [0], writeCallbacks = [],
          calls = [NewSocket, SetNoDelay True, Pause, Connect],
          promises = [Some (Rejected (SocketError ''ECONNREFUSED''))], thens = []\<rparr> \<and>
   closeSocket
     \<lparr>options_immediate = True, options_cache = True, dead = False,
      connectFailed = True, disconnectCallback = None,
      statusArray = [0, 0, 0, 0, 0, 0, 0, 0, 0, 0, 0, 0, 0, 0],
      statusIndex = 0, statusCache = None, error = None,
      statusCallback = None, errorListeners = [ConnectFailure 0],
      connectListeners = [0], writeCallbacks = [],
      calls = [NewSocket, SetNoDelay True, Pause, Connect],
      promises = [Some (Rejected (SocketError ''ECONNREFUSED''))], thens = []\<rparr> =
   \<lparr>options_immediate = True, options_cache = True, dead = False,
      connectFailed = True, disconnectCallback = None,
      statusArray = [0, 0, 0, 0, 0, 0, 0, 0, 0, 0, 0, 0, 0, 0],
      statusIndex = 0, statusCache = None, error = None,
      statusCallback = None, errorListeners = [ConnectFailure 0],
      connectListeners = [0], writeCallbacks = [],
      calls = [NewSocket, SetNoDelay True, Pause, Connect],
      promises = [Some (Rejected (SocketError ''ECONNREFUSED''))], thens = []\<rparr>"
  by (simp add: step_def onError_def runErrorListener_def connect_def newPromise_def
      newTcpClient_def createSocket_def closeSocket_def settle_def settle1_def
      statusResponseSize_def replicate_14)

subsection \<open>The status cache\<close>

lemma updateStatusCache_fields:
  "promises (updateStatusCache f c) = promises c"
  "calls (updateStatusCache f c) = calls c"
  "options_cache (updateStatusCache f c) = options_cache c"
  "thens (updateStatusCache f c) = thens c"
  by (simp_all add: updateStatusCache_def split: option.splits)

lemma unsetStatusCache_fields:
  "promises (unsetStatusCache path c) = promises c"
  "calls (unsetStatusCache path c) = calls c"
  "options_cache (unsetStatusCache path c) = options_cache c"
  "thens (unsetStatusCache path c) = thens c"
  by (simp_all add: unsetStatusCache_def split: option.splits)

lemma updateStatusCache_Some:
  "statusCache c = Some s \<Longrightarrow> statusCache (updateStatusCache f c) = Some (f s)"
  by (simp add: updateStatusCache_def)

lemma unsetStatusCache_Some:
  "statusCache c = Some s \<Longrightarrow> statusCache (unsetStatusCache (Some f) c) = Some (f s)"
  by (simp add: unsetStatusCache_def)

lemma updateStatusCache_None:
  "statusCache c = None \<Longrightarrow> statusCache (updateStatusCache f c) = None"
  by (simp add: updateStatusCache_def)

lemma unsetStatusCache_None:
  "statusCache c = None \<Longrightarrow> statusCache (unsetStatusCache path c) = None"
  by (simp add: unsetStatusCache_def split: option.splits)

text \<open>No write callback creates a cache entry.\<close>

lemma written_cache_None:
  assumes "statusCache c = None"
  shows "statusCache (written cb c) = None"
proof -
  have n: "statusCache (c\<lparr>disconnectCallback := None\<rparr>) = None" using assms by simp
  show ?thesis
    by (cases cb)
      (simp_all add: written_def Let_def settle_fields n updateStatusCache_None
        unsetStatusCache_None unsetStatusCache_def)
qed

lemma written_fields:
  "calls (written cb c) = calls c"
  "options_cache (written cb c) = options_cache c"
  "dead (written cb c) = dead c"
  by (cases cb;
      simp add: written_def Let_def settle_fields updateStatusCache_fields
        unsetStatusCache_fields dead_updateStatusCache dead_unsetStatusCache)+

lemma written_settles:
  assumes "p < length (promises c)" "promises c ! p = None"
    and "cb = OnWritten p \<or> cb = OffWritten p \<or> cb = RgbwWritten p fd rr rg rb rw \<or>
         cb = BuiltinWritten p \<or> cb = CustomWritten p"
  shows "promiseState p (written cb c) = Some (Resolved None)"
proof -
  have s: "promiseState p (settle p (Resolved None) x) = Some (Resolved None)"
    if "promises x = promises c" for x
    using assms(1,2) that by (intro settle_new) simp_all
  from assms(3) show ?thesis
    by (elim disjE)
      (simp_all add: written_def Let_def s updateStatusCache_fields unsetStatusCache_fields)
qed

lemma written_rgbw_cache:
  assumes "statusCache c = Some s"
  shows "statusCache (written (RgbwWritten p fd rr rg rb rw) c) =
     Some (s\<lparr>st_raw := fd, st_mode := ''static'', st_speed := None, st_red := rr,
             st_green := rg, st_blue := rb, st_white := rw\<rparr>)"
proof -
  have n: "statusCache (c\<lparr>disconnectCallback := None\<rparr>) = Some s" using assms by simp
  show ?thesis
    by (simp add: written_def Let_def settle_fields
        updateStatusCache_Some[OF unsetStatusCache_Some] updateStatusCache_Some
        unsetStatusCache_Some n)
qed

text \<open>\<open>status(false)\<close> on a live channel: from the cache, or by a round trip.\<close>

lemma status_from_cache:
  assumes "\<not> dead c" "options_cache c" "statusCache c = Some s" "st_mode s = ''static''"
  shows "status False c =
    (length (promises c),
     settle (length (promises c)) (Resolved (Some s)) (c\<lparr>promises := promises c @ [None]\<rparr>))"
  using assms by (simp add: status_def newPromise_def Let_def)

lemma status_round_trip:
  assumes "\<not> dead c" "statusCache c = None"
  shows "status False c =
    (length (promises c),
     c\<lparr>promises := promises c @ [None], statusCallback := Some (length (promises c)),
       disconnectCallback := Some (length (promises c)),
       calls := calls c @ [Resume, Write statusRequest]\<rparr>)"
  using assms by (simp add: status_def newPromise_def Let_def)

lemma rgbw_live:
  assumes "\<not> dead c"
  shows "\<exists>fd. rgbw r g b w c =
    (length (promises c),
     writePromise fd
       (RgbwWritten (length (promises c)) fd (clampRGBW r) (clampRGBW g) (clampRGBW b)
          (clampRGBW w))
       (length (promises c)) (c\<lparr>promises := promises c @ [None]\<rparr>))"
  using assms by (simp add: rgbw_def newPromise_def Let_def) (rule exI, rule refl)

lemma builtin_live:
  assumes "\<not> dead c" "map_of builtinFunctionMap name = Some functionId"
  shows "\<exists>buf. builtin name speed c =
    (length (promises c),
     writePromise buf (BuiltinWritten (length (promises c))) (length (promises c))
       (c\<lparr>promises := promises c @ [None]\<rparr>))"
  using assms by (simp add: builtin_def newPromise_def Let_def) (rule exI, rule refl)

lemma writePromise_fields:
  "writeCallbacks (writePromise buf cb p c) = writeCallbacks c @ [cb]"
  "promises (writePromise buf cb p c) = promises c"
  "statusCache (writePromise buf cb p c) = statusCache c"
  "dead (writePromise buf cb p c) = dead c"
  "options_cache (writePromise buf cb p c) = options_cache c"
  "calls (writePromise buf cb p c) = calls c @ [Write buf]"
  by (simp_all add: writePromise_def)

text \<open>
  C3, as the code has it, on a channel that is not dead.  With caching enabled and a
  status in the cache, after \<open>rgbw(r, g, b, w)\<close> has resolved (its write callback has
  run), \<open>status(false)\<close> resolves at once with a status of mode \<open>static\<close> whose colours are
  the clamped arguments, and calls nothing on the socket.  After a built-in function
  (with a known name) has resolved, the cache is empty and \<open>status(false)\<close> resumes the
  socket, writes the status request and stays pending.
\<close>

theorem cache_coherence:
  assumes "\<not> dead c"
  shows
   "(options_cache c \<and> statusCache c \<noteq> None \<longrightarrow>
      (case rgbw r g b w c of (p, c1) \<Rightarrow>
         \<exists>cb. writeCallbacks c1 = writeCallbacks c @ [cb] \<and>
              promiseState p (written cb c1) = Some (Resolved None) \<and>
              (case status False (written cb c1) of (q, c3) \<Rightarrow>
                 calls c3 = calls (written cb c1) \<and>
                 (\<exists>s. promiseState q c3 = Some (Resolved (Some s)) \<and>
                      st_mode s = ''static'' \<and> st_speed s = None \<and>
                      st_red s = clampRGBW r \<and> st_green s = clampRGBW g \<and>
                      st_blue s = clampRGBW b \<and> st_white s = clampRGBW w)))) \<and>
    (map_of builtinFunctionMap name \<noteq> None \<longrightarrow>
      (case builtin name speed c of (p, c1) \<Rightarrow>
         \<exists>cb. writeCallbacks c1 = writeCallbacks c @ [cb] \<and>
              promiseState p (written cb c1) = Some (Resolved None) \<and>
              statusCache (written cb c1) = None \<and>
              (case status False (written cb c1) of (q, c3) \<Rightarrow>
                 promiseState q c3 = None \<and> statusCallback c3 = Some q \<and>
                 calls c3 = calls (written cb c1) @ [Resume, Write statusRequest])))"
proof (intro conjI impI)
  assume "options_cache c \<and> statusCache c \<noteq> None"
  then obtain s0 where oc: "options_cache c" and sc: "statusCache c = Some s0" by auto
  define p where "p = length (promises c)"
  obtain fd where rg: "rgbw r g b w c =
      (p, writePromise fd (RgbwWritten p fd (clampRGBW r) (clampRGBW g) (clampRGBW b) (clampRGBW w))
            p (c\<lparr>promises := promises c @ [None]\<rparr>))"
    using rgbw_live[OF assms] unfolding p_def by blast
  define cb where
    "cb = RgbwWritten p fd (clampRGBW r) (clampRGBW g) (clampRGBW b) (clampRGBW w)"
  define c1 where "c1 = writePromise fd cb p (c\<lparr>promises := promises c @ [None]\<rparr>)"
  define c2 where "c2 = written cb c1"
  define s where "s = s0\<lparr>st_raw := fd, st_mode := ''static'', st_speed := None,
      st_red := clampRGBW r, st_green := clampRGBW g, st_blue := clampRGBW b,
      st_white := clampRGBW w\<rparr>"
  have w: "writeCallbacks c1 = writeCallbacks c @ [cb]"
    by (simp add: c1_def writePromise_fields)
  have "p < length (promises c1)" "promises c1 ! p = None"
    by (simp_all add: c1_def writePromise_fields p_def)
  then have ps: "promiseState p c2 = Some (Resolved None)"
    unfolding c2_def by (rule written_settles) (simp add: cb_def)
  have "statusCache c1 = Some s0" by (simp add: c1_def writePromise_fields sc)
  then have c2s: "statusCache c2 = Some s"
    unfolding c2_def cb_def s_def by (rule written_rgbw_cache)
  have c2d: "\<not> dead c2" and c2o: "options_cache c2"
    using assms oc by (simp_all add: c2_def written_fields c1_def writePromise_fields)
  have st: "st_mode s = ''static''" by (simp add: s_def)
  define q where "q = length (promises c2)"
  define c3 where "c3 = settle q (Resolved (Some s)) (c2\<lparr>promises := promises c2 @ [None]\<rparr>)"
  have sf: "status False c2 = (q, c3)"
    unfolding q_def c3_def using c2d c2o c2s st by (rule status_from_cache)
  have k: "calls c3 = calls c2" by (simp add: c3_def settle_fields)
  have qs: "promiseState q c3 = Some (Resolved (Some s))"
    unfolding c3_def q_def by (rule settle_fresh)
  have "\<exists>s. promiseState q c3 = Some (Resolved (Some s)) \<and>
          st_mode s = ''static'' \<and> st_speed s = None \<and>
          st_red s = clampRGBW r \<and> st_green s = clampRGBW g \<and>
          st_blue s = clampRGBW b \<and> st_white s = clampRGBW w"
    using qs by (intro exI[of _ s]) (simp add: s_def)
  with k have "case status False (written cb c1) of (q, c3) \<Rightarrow>
      calls c3 = calls (written cb c1) \<and>
      (\<exists>s. promiseState q c3 = Some (Resolved (Some s)) \<and>
           st_mode s = ''static'' \<and> st_speed s = None \<and>
           st_red s = clampRGBW r \<and> st_green s = clampRGBW g \<and>
           st_blue s = clampRGBW b \<and> st_white s = clampRGBW w)"
    unfolding c2_def[symmetric] sf by simp
  with w ps show "case rgbw r g b w c of (p, c1) \<Rightarrow>
         \<exists>cb. writeCallbacks c1 = writeCallbacks c @ [cb] \<and>
              promiseState p (written cb c1) = Some (Resolved None) \<and>
              (case status False (written cb c1) of (q, c3) \<Rightarrow>
                 calls c3 = calls (written cb c1) \<and>
                 (\<exists>s. promiseState q c3 = Some (Resolved (Some s)) \<and>
                      st_mode s = ''static'' \<and> st_speed s = None \<and>
                      st_red s = clampRGBW r \<and> st_green s = clampRGBW g \<and>
                      st_blue s = clampRGBW b \<and> st_white s = clampRGBW w))"
    unfolding rg cb_def[symmetric] c1_def[symmetric] prod.case
    by (intro exI[of _ cb]) (simp add: c2_def)
next
  assume "map_of builtinFunctionMap name \<noteq> None"
  then obtain fid where f: "map_of builtinFunctionMap name = Some fid" by auto
  define p where "p = length (promises c)"
  define cb where "cb = BuiltinWritten p"
  obtain buf where bi: "builtin name speed c =
      (p, writePromise buf cb p (c\<lparr>promises := promises c @ [None]\<rparr>))"
    using builtin_live[OF assms f] unfolding p_def cb_def by blast
  define c1 where "c1 = writePromise buf cb p (c\<lparr>promises := promises c @ [None]\<rparr>)"
  define c2 where "c2 = written cb c1"
  have w: "writeCallbacks c1 = writeCallbacks c @ [cb]"
    by (simp add: c1_def writePromise_fields)
  have "p < length (promises c1)" "promises c1 ! p = None"
    by (simp_all add: c1_def writePromise_fields p_def)
  then have ps: "promiseState p c2 = Some (Resolved None)"
    unfolding c2_def by (rule written_settles) (simp add: cb_def)
  have c2s: "statusCache c2 = None"
    by (simp add: c2_def cb_def written_def Let_def settle_fields unsetStatusCache_def)
  have c2d: "\<not> dead c2"
    using assms by (simp add: c2_def written_fields c1_def writePromise_fields)
  have sf: "case status False c2 of (q, c3) \<Rightarrow>
      promiseState q c3 = None \<and> statusCallback c3 = Some q \<and>
      calls c3 = calls c2 @ [Resume, Write statusRequest]"
    by (simp add: status_round_trip[OF c2d c2s] promiseState_def)
  from w ps c2s sf show "case builtin name speed c of (p, c1) \<Rightarrow>
         \<exists>cb. writeCallbacks c1 = writeCallbacks c @ [cb] \<and>
              promiseState p (written cb c1) = Some (Resolved None) \<and>
              statusCache (written cb c1) = None \<and>
              (case status False (written cb c1) of (q, c3) \<Rightarrow>
                 promiseState q c3 = None \<and> statusCallback c3 = Some q \<and>
                 calls c3 = calls (written cb c1) @ [Resume, Write statusRequest])"
    unfolding bi c1_def[symmetric] prod.case
    by (intro exI[of _ cb]) (simp add: c2_def)
qed

theorem cache_coherence_witness:
  "\<not> dead ((newTcpClient True True)\<lparr>statusCache := Some initialResult\<rparr>) \<and>
   options_cache ((newTcpClient True True)\<lparr>statusCache := Some initialResult\<rparr>) \<and>
   statusCache ((newTcpClient True True)\<lparr>statusCache := Some initialResult\<rparr>) \<noteq> None \<and>
   clampRGBW 10 = 10 \<and> clampRGBW 20 = 20 \<and> clampRGBW 30 = 30 \<and> clampRGBW 40 = 40 \<and>
   (case rgbw 10 20 30 40 ((newTcpClient True True)\<lparr>statusCache := Some initialResult\<rparr>) of
      (p, c1) \<Rightarrow>
         \<exists>cb. writeCallbacks c1 =
                writeCallbacks ((newTcpClient True True)\<lparr>statusCache := Some initialResult\<rparr>) @ [cb] \<and>
              promiseState p (written cb c1) = Some (Resolved None) \<and>
              (case status False (written cb c1) of (q, c3) \<Rightarrow>
                 calls c3 = calls (written cb c1) \<and>
                 (\<exists>s. promiseState q c3 = Some (Resolved (Some s)) \<and>
                      st_mode s = ''static'' \<and> st_speed s = None \<and>
                      st_red s = clampRGBW 10 \<and> st_green s = clampRGBW 20 \<and>
                      st_blue s = clampRGBW 30 \<and> st_white s = clampRGBW 40))) \<and>
   map_of builtinFunctionMap ''redGradualChange'' \<noteq> None \<and>
   (case builtin ''redGradualChange'' 50
           ((newTcpClient True True)\<lparr>statusCache := Some initialResult\<rparr>) of
      (p, c1) \<Rightarrow>
         \<exists>cb. writeCallbacks c1 =
                writeCallbacks ((newTcpClient True True)\<lparr>statusCache := Some initialResult\<rparr>) @ [cb] \<and>
              promiseState p (written cb c1) = Some (Resolved None) \<and>
              statusCache (written cb c1) = None \<and>
              (case status False (written cb c1) of (q, c3) \<Rightarrow>
                 promiseState q c3 = None \<and> statusCallback c3 = Some q \<and>
                 calls c3 = calls (written cb c1) @ [Resume, Write statusRequest]))"
proof -
  define c where "c = (newTcpClient True True)\<lparr>statusCache := Some initialResult\<rparr>"
  have d: "\<not> dead c" and o: "options_cache c" and s: "statusCache c \<noteq> None"
    by (simp_all add: c_def newTcpClient_def createSocket_def)
  have k: "clampRGBW 10 = 10" "clampRGBW 20 = 20" "clampRGBW 30 = 30" "clampRGBW 40 = 40"
    by (simp_all add: clampRGBW_def lodash_clamp_def)
  have m: "map_of builtinFunctionMap ''redGradualChange'' \<noteq> None"
    by (simp add: builtinFunctionMap_def)
  note t = cache_coherence[OF d, of 10 20 30 40 "''redGradualChange''" 50]
  have a: "case rgbw 10 20 30 40 c of
      (p, c1) \<Rightarrow>
         \<exists>cb. writeCallbacks c1 = writeCallbacks c @ [cb] \<and>
              promiseState p (written cb c1) = Some (Resolved None) \<and>
              (case status False (written cb c1) of (q, c3) \<Rightarrow>
                 calls c3 = calls (written cb c1) \<and>
                 (\<exists>s. promiseState q c3 = Some (Resolved (Some s)) \<and>
                      st_mode s = ''static'' \<and> st_speed s = None \<and>
                      st_red s = clampRGBW 10 \<and> st_green s = clampRGBW 20 \<and>
                      st_blue s = clampRGBW 30 \<and> st_white s = clampRGBW 40))"
    by (rule t[THEN conjunct1, THEN mp, OF conjI[OF o s]])
  have b: "case builtin ''redGradualChange'' 50 c of
      (p, c1) \<Rightarrow>
         \<exists>cb. writeCallbacks c1 = writeCallbacks c @ [cb] \<and>
              promiseState p (written cb c1) = Some (Resolved None) \<and>
              statusCache (written cb c1) = None \<and>
              (case status False (written cb c1) of (q, c3) \<Rightarrow>
                 promiseState q c3 = None \<and> statusCallback c3 = Some q \<and>
                 calls c3 = calls (written cb c1) @ [Resume, Write statusRequest])"
    by (rule t[THEN conjunct2, THEN mp, OF m])
  show ?thesis
    unfolding c_def[symmetric] by (intro conjI d o s k a m b)
qed

text \<open>
  C3 as stated fails when the cache is empty at the time \<open>rgbw\<close> resolves.  A client with
  caching enabled connects and primes its cache from a status frame; a built-in function
  clears the cache; then \<open>rgbw(10, 20, 30, 40)\<close> resolves, and \<open>status(false)\<close> resumes the
  socket, writes the status request and is pending (promise 4), with the cache still
  empty.  And on a channel that \<open>disconnect()\<close> has marked dead, a built-in function
  resolves without a write and \<open>status(false)\<close> resolves with \<open>null\<close> (promise 3)
  without a round trip.
\<close>

theorem cache_coherence_counterexample:
  "run [CallConnect, SocketConnected,
        SocketData [0x81, 4, 0x23, 0x61, 0x21, 5, 1, 2, 3, 4, 3, 0, 0x0f, 0x4B],
        CallBuiltin ''redGradualChange'' 50, SocketWritten,
        CallRgbw 10 20 30 40, SocketWritten, CallStatus False] (newTcpClient True True) =
   Inr \<lparr>options_immediate = True, options_cache = True, dead = False,
        connectFailed = False, disconnectCallback = Some 4,
        statusArray = [0, 0, 0, 0, 0, 0, 0, 0, 0, 0, 0, 0, 0, 0],
        statusIndex = 0, statusCache = None, error = None,
        statusCallback = Some 4, errorListeners = [RecordError],
        connectListeners = [], writeCallbacks = [],
        calls =
          [NewSocket, SetNoDelay True, Pause, Connect, Resume,
           Write [0x81, 0x8A, 0x8B, 0x96], Pause, Write [0x61, 0x26, 50, 0x0f, 200],
           Write [0x31, 10, 20, 30, 40, 0, 0x0f, 164], Resume,
           Write [0x81, 0x8A, 0x8B, 0x96]],
        promises =
          [Some (Resolved None),
           Some (Resolved (Some
             \<lparr>st_raw = [0x81, 4, 0x23, 0x61, 0x21, 5, 1, 2, 3, 4, 3, 0, 0x0f, 0x4B],
              st_on = True, st_mode = ''static'', st_speed = None,
              st_red = 1, st_green = 2, st_blue = 3, st_white = 4\<rparr>)),
           Some (Resolved None), Some (Resolved None), None],
        thens = [(1, 0)]\<rparr> \<and>
   run [CallConnect, SocketConnected,
        SocketData [0x81, 4, 0x23, 0x61, 0x21, 5, 1, 2, 3, 4, 3, 0, 0x0f, 0x4B],
        CallDisconnect, CallBuiltin ''redGradualChange'' 50, CallStatus False]
       (newTcpClient True True) =
   Inr \<lparr>options_immediate = True, options_cache = True, dead = True,
        connectFailed = False, disconnectCallback = None,
        statusArray = [0, 0, 0, 0, 0, 0, 0, 0, 0, 0, 0, 0, 0, 0],
        statusIndex = 0,
        statusCache = Some
          \<lparr>st_raw = [0x81, 4, 0x23, 0x61, 0x21, 5, 1, 2, 3, 4, 3, 0, 0x0f, 0x4B],
           st_on = True, st_mode = ''static'', st_speed = None,
           st_red = 1, st_green = 2, st_blue = 3, st_white = 4\<rparr>,
        error = None, statusCallback = None, errorListeners = [RecordError],
        connectListeners = [], writeCallbacks = [],
        calls =
          [NewSocket, SetNoDelay True, Pause, Connect, Resume,
           Write [0x81, 0x8A, 0x8B, 0x96], Pause, End, Unref, Destroy, OnTcpDead None None],
        promises =
          [Some (Resolved None),
           Some (Resolved (Some
             \<lparr>st_raw = [0x81, 4, 0x23, 0x61, 0x21, 5, 1, 2, 3, 4, 3, 0, 0x0f, 0x4B],
              st_on = True, st_mode = ''static'', st_speed = None,
              st_red = 1, st_green = 2, st_blue = 3, st_white = 4\<rparr>)),
           Some (Resolved None), Some (Resolved None)],
        thens = [(1, 0)]\<rparr>"
  by code_simp

lemma cache_calls:
  "statusCache (snd (on c)) = statusCache c"
  "statusCache (snd (off c)) = statusCache c"
  "statusCache (snd (rgbw r g b w c)) = statusCache c"
  by (simp_all add: call_defs settle_fields Let_def)

lemma onWritten_cache_None: "statusCache c = None \<Longrightarrow> statusCache (onWritten c) = None"
  by (simp add: onWritten_def written_cache_None split: list.splits)

lemma step_cache_None:
  assumes "statusCache c = None"
    and "ev = CallOn \<or> ev = CallOff \<or> (\<exists>r g b w. ev = CallRgbw r g b w) \<or> ev = SocketWritten"
  shows "\<exists>c'. step ev c = Inr c' \<and> statusCache c' = None \<and> dead c' = dead c"
  using assms
  by (auto simp: step_def cache_calls dead_calls onWritten_cache_None dead_onWritten)

lemma run_cache_None:
  assumes "statusCache c = None"
    and "\<forall>ev \<in> set evs. ev = CallOn \<or> ev = CallOff \<or> (\<exists>r g b w. ev = CallRgbw r g b w) \<or>
           ev = SocketWritten"
  shows "\<exists>c'. run evs c = Inr c' \<and> statusCache c' = None \<and> dead c' = dead c"
  using assms
proof (induction evs arbitrary: c)
  case Nil
  then show ?case by simp
next
  case (Cons ev evs)
  from Cons.prems have "ev = CallOn \<or> ev = CallOff \<or> (\<exists>r g b w. ev = CallRgbw r g b w) \<or>
      ev = SocketWritten" by simp
  from step_cache_None[OF Cons.prems(1) this] obtain c1 where
    s: "step ev c = Inr c1" and n: "statusCache c1 = None" and d: "dead c1 = dead c" by blast
  from Cons.prems(2) have "\<forall>ev \<in> set evs. ev = CallOn \<or> ev = CallOff \<or>
      (\<exists>r g b w. ev = CallRgbw r g b w) \<or> ev = SocketWritten" by simp
  from Cons.IH[OF n this] obtain c' where
    "run evs c1 = Inr c'" "statusCache c' = None" "dead c' = dead c1" by blast
  with s d show ?case by simp
qed

text \<open>
  C10.  The write callbacks of \<open>on()\<close>, \<open>off()\<close> and \<open>rgbw()\<close> leave an empty cache empty.
  So from a state with an empty cache, after any sequence of calls of \<open>on\<close>, \<open>off\<close> and
  \<open>rgbw\<close> and of completed writes, the cache is still empty, and on a channel that is not
  dead \<open>status(false)\<close> then resumes the socket, writes the status request and stays
  pending until the response arrives.
\<close>

theorem updates_never_create_cache:
  assumes "statusCache c = None"
    and "\<forall>ev \<in> set evs. ev = CallOn \<or> ev = CallOff \<or> (\<exists>r g b w. ev = CallRgbw r g b w) \<or>
           ev = SocketWritten"
  shows "statusCache (written (OnWritten p) c) = None \<and>
         statusCache (written (OffWritten p) c) = None \<and>
         statusCache (written (RgbwWritten p finalData realRed realGreen realBlue realWhite) c) =
           None \<and>
         (\<exists>c'. run evs c = Inr c' \<and> statusCache c' = None \<and> dead c' = dead c \<and>
               (\<not> dead c \<longrightarrow>
                  (case status False c' of (q, c'') \<Rightarrow>
                     promiseState q c'' = None \<and> statusCallback c'' = Some q \<and>
                     calls c'' = calls c' @ [Resume, Write statusRequest])))"
proof -
  from run_cache_None[OF assms] obtain c' where
    r: "run evs c = Inr c'" and n: "statusCache c' = None" and d: "dead c' = dead c" by blast
  have "case status False c' of (q, c'') \<Rightarrow>
          promiseState q c'' = None \<and> statusCallback c'' = Some q \<and>
          calls c'' = calls c' @ [Resume, Write statusRequest]" if "\<not> dead c"
  proof -
    from that d have "\<not> dead c'" by simp
    from status_round_trip[OF this n] show ?thesis by (simp add: promiseState_def)
  qed
  with r n d have "\<exists>c'. run evs c = Inr c' \<and> statusCache c' = None \<and> dead c' = dead c \<and>
               (\<not> dead c \<longrightarrow>
                  (case status False c' of (q, c'') \<Rightarrow>
                     promiseState q c'' = None \<and> statusCallback c'' = Some q \<and>
                     calls c'' = calls c' @ [Resume, Write statusRequest]))"
    by (intro exI[of _ c']) simp
  with written_cache_None[OF assms(1)] show ?thesis by simp
qed

theorem updates_never_create_cache_witness:
  "statusCache (newTcpClient True True) = None \<and> \<not> dead (newTcpClient True True) \<and>
   (\<exists>c'. run [CallRgbw 10 20 30 40, SocketWritten, CallOn, SocketWritten]
            (newTcpClient True True) = Inr c' \<and>
         statusCache c' = None \<and>
         (case status False c' of (q, c'') \<Rightarrow>
            promiseState q c'' = None \<and> statusCallback c'' = Some q \<and>
            calls c'' = calls c' @ [Resume, Write statusRequest]))"
proof -
  let ?c = "newTcpClient True True"
  let ?evs = "[CallRgbw 10 20 30 40, SocketWritten, CallOn, SocketWritten]"
  have n: "statusCache ?c = None" and d: "\<not> dead ?c"
    by (simp_all add: newTcpClient_def createSocket_def)
  have e: "\<forall>ev \<in> set ?evs. ev = CallOn \<or> ev = CallOff \<or> (\<exists>r g b w. ev = CallRgbw r g b w) \<or>
           ev = SocketWritten" by simp
  note t = updates_never_create_cache[OF n e, of 0 "[]" 0 0 0 0]
  from t obtain c' where r: "run ?evs ?c = Inr c'" and k: "statusCache c' = None"
    and i: "\<not> dead ?c \<longrightarrow>
         (case status False c' of (q, c'') \<Rightarrow>
            promiseState q c'' = None \<and> statusCallback c'' = Some q \<and>
            calls c'' = calls c' @ [Resume, Write statusRequest])"
    by (elim conjE exE)
  from i d have j: "case status False c' of (q, c'') \<Rightarrow>
            promiseState q c'' = None \<and> statusCallback c'' = Some q \<and>
            calls c'' = calls c' @ [Resume, Write statusRequest]"
    by (rule mp)
  have "\<exists>c'. run ?evs ?c = Inr c' \<and> statusCache c' = None \<and>
         (case status False c' of (q, c'') \<Rightarrow>
            promiseState q c'' = None \<and> statusCallback c'' = Some q \<and>
            calls c'' = calls c' @ [Resume, Write statusRequest])"
    by (rule exI[of _ c']) (intro conjI r k j)
  with n d show ?thesis by (intro conjI)
qed

section \<open>Verification of discovery\<close>

lemmas udp_defs = udp_step_def onListening_def onSent_def onMessage_def onUdpError_def
  socketClose_def onUdpClose_def discover_def number_or_default_def defaultPort_def

lemma normalizeMac_examples:
  "normalizeMac ''AC-CF-23-AA-BB-CC'' = ''ac:cf:23:aa:bb:cc''"
  "normalizeMac ''ACCF23112233'' = ''ac:cf:23:11:22:33''"
  by code_simp+

lemmas parser_defs = helloResponseParser_def at_index_def normalizeMac_examples

text \<open>
  The comparison of the \<open>message\<close> handler is between a string and a Buffer, which are
  never strictly equal: every message received while no error is recorded is parsed, the
  echo of the hello included.
\<close>

lemma onMessage_parses_echo:
  assumes "dc_error d = None" "dc_hello d = JsBuffer h"
  shows "onMessage message d =
    (case helloResponseParser (JsString message) of
       Inl e \<Rightarrow> Inl e
     | Inr dev \<Rightarrow> Inr (d\<lparr>dc_data := dc_data d @ [dev]\<rparr>))"
  using assms by (simp add: onMessage_def)

text \<open>
  C6: the code at a failing input.  Discovery with the password
  \<open>10.0.0.7,AC-CF-23-AA-BB-CC,HF-LPB100\<close> receives its own broadcast and nothing else until
  the timer fires: the callback gets a list with one device parsed from the echo.  With a
  hello that has no comma (as \<open>HF-A11ASSISTHREAD\<close>) the handler throws a TypeError on the
  echo.
\<close>

theorem own_broadcast_is_parsed:
  "udp_run [Listening, Sent None, Message ''10.0.0.7,AC-CF-23-AA-BB-CC,HF-LPB100'', TimerFired]
     (discover strs \<lparr>opt_password = Some ''10.0.0.7,AC-CF-23-AA-BB-CC,HF-LPB100'',
                     opt_timeout = None, opt_localPort = None, opt_remotePort = None\<rparr>) =
   Inr \<lparr>dc_error = None,
        dc_data = [\<lparr>ip = Some ''10.0.0.7'', mac = ''ac:cf:23:aa:bb:cc'',
                    model = Some ''HF-LPB100''\<rparr>],
        dc_hello = JsBuffer ''10.0.0.7,AC-CF-23-AA-BB-CC,HF-LPB100'',
        dc_timeout = 3000, dc_remotePort = 48899, stopDiscover = True, dc_closed = True,
        dc_calls =
          [CreateSocket, UdpUnref, Bind None, SetBroadcast True,
           Send (JsBuffer ''10.0.0.7,AC-CF-23-AA-BB-CC,HF-LPB100'') 48899 ''255.255.255.255'',
           SetTimeout 3000, UdpClose, ClearTimeout,
           Callback None [\<lparr>ip = Some ''10.0.0.7'', mac = ''ac:cf:23:aa:bb:cc'',
                           model = Some ''HF-LPB100''\<rparr>]]\<rparr> \<and>
   udp_run [Listening, Sent None, Message ''HF-A11ASSISTHREAD'', TimerFired]
     (discover strs \<lparr>opt_password = Some ''HF-A11ASSISTHREAD'',
                     opt_timeout = None, opt_localPort = None, opt_remotePort = None\<rparr>) =
   Inl TypeError"
  by (simp add: udp_defs parser_defs Let_def)

text \<open>
  C7, as the code has it.  A socket error before the socket is closed ends discovery: the
  timer is cleared if it was started, the socket is closed, and the callback is called
  once with the error and with the list of the devices collected so far; no later event
  has any effect.
\<close>

theorem discover_error_reports_collected:
  assumes "\<not> dc_closed d"
  shows "\<exists>d'. udp_step (UdpError err) d = Inr d' \<and>
           dc_closed d' \<and> dc_error d' = Some err \<and> dc_data d' = dc_data d \<and>
           dc_calls d' =
             dc_calls d @ (if stopDiscover d then [ClearTimeout] else []) @ [UdpClose] @
             (if stopDiscover d then [ClearTimeout] else []) @
             [Callback (Some err) (dc_data d)] \<and>
           (\<forall>evs. udp_run evs d' = Inr d')"
proof -
  define d' where "d' = onUdpError err d"
  have s: "udp_step (UdpError err) d = Inr d'"
    using assms by (simp add: udp_step_def d'_def)
  have c: "dc_closed d'" and e: "dc_error d' = Some err" and k: "dc_data d' = dc_data d"
    by (simp_all add: d'_def onUdpError_def socketClose_def onUdpClose_def Let_def)
  have l: "dc_calls d' =
             dc_calls d @ (if stopDiscover d then [ClearTimeout] else []) @ [UdpClose] @
             (if stopDiscover d then [ClearTimeout] else []) @
             [Callback (Some err) (dc_data d)]"
    by (simp add: d'_def onUdpError_def socketClose_def onUdpClose_def Let_def)
  have r: "udp_run evs d' = Inr d'" for evs
    using c by (induction evs) (simp_all add: udp_step_def)
  from s c e k l r show ?thesis by blast
qed

theorem discover_error_reports_collected_witness:
  "\<not> dc_closed
      \<lparr>dc_error = None,
       dc_data = [\<lparr>ip = Some ''10.0.0.9'', mac = ''ac:cf:23:11:22:33'',
                   model = Some ''HF-LPB100''\<rparr>],
       dc_hello = JsBuffer ''HF-A11ASSISTHREAD'', dc_timeout = 3000, dc_remotePort = 48899,
       stopDiscover = True, dc_closed = False, dc_calls = []\<rparr> \<and>
   (\<exists>d'. udp_step (UdpError (SocketError ''EPIPE''))
           \<lparr>dc_error = None,
            dc_data = [\<lparr>ip = Some ''10.0.0.9'', mac = ''ac:cf:23:11:22:33'',
                        model = Some ''HF-LPB100''\<rparr>],
            dc_hello = JsBuffer ''HF-A11ASSISTHREAD'', dc_timeout = 3000,
            dc_remotePort = 48899, stopDiscover = True, dc_closed = False,
            dc_calls = []\<rparr> = Inr d' \<and>
         dc_calls d' =
           [ClearTimeout, UdpClose, ClearTimeout,
            Callback (Some (SocketError ''EPIPE''))
              [\<lparr>ip = Some ''10.0.0.9'', mac = ''ac:cf:23:11:22:33'',
                 model = Some ''HF-LPB100''\<rparr>]])"
proof -
  define d where "d =
      \<lparr>dc_error = None,
       dc_data = [\<lparr>ip = Some ''10.0.0.9'', mac = ''ac:cf:23:11:22:33'',
                   model = Some ''HF-LPB100''\<rparr>],
       dc_hello = JsBuffer ''HF-A11ASSISTHREAD'', dc_timeout = 3000, dc_remotePort = 48899,
       stopDiscover = True, dc_closed = False, dc_calls = []\<rparr>"
  have n: "\<not> dc_closed d" by (simp add: d_def)
  from discover_error_reports_collected[OF n, of "SocketError ''EPIPE''"]
  obtain d' where s: "udp_step (UdpError (SocketError ''EPIPE'')) d = Inr d'"
    and l: "dc_calls d' =
             dc_calls d @ (if stopDiscover d then [ClearTimeout] else []) @ [UdpClose] @
             (if stopDiscover d then [ClearTimeout] else []) @
             [Callback (Some (SocketError ''EPIPE'')) (dc_data d)]"
    by (elim conjE exE)
  from l have l': "dc_calls d' =
           [ClearTimeout, UdpClose, ClearTimeout,
            Callback (Some (SocketError ''EPIPE''))
              [\<lparr>ip = Some ''10.0.0.9'', mac = ''ac:cf:23:11:22:33'',
                 model = Some ''HF-LPB100''\<rparr>]]"
    by (simp add: d_def)
  show ?thesis
    unfolding d_def[symmetric] by (intro conjI n exI[of _ d'] s l')
qed

text \<open>
  C7 as stated fails: one device answers, then the socket reports an error; the callback
  is called with the error and with the device collected before the error.
\<close>

theorem discover_error_reports_collected_counterexample:
  "udp_run [Listening, Sent None, Message ''10.0.0.9,ACCF23112233,HF-LPB100'',
            UdpError (SocketError ''EPIPE'')]
     (discover
        \<lparr>defaultHello = ''HF-A11ASSISTHREAD'', sendPrefix = ''AT+'', sendSuffix = [CHR 0x0D],
         recvPrefix = ''+ok'', recvSuffix = [CHR 0x0D, CHR 0x0A, CHR 0x0D, CHR 0x0A]\<rparr>
        \<lparr>opt_password = None, opt_timeout = None, opt_localPort = None,
         opt_remotePort = None\<rparr>) =
   Inr \<lparr>dc_error = Some (SocketError ''EPIPE''),
        dc_data = [\<lparr>ip = Some ''10.0.0.9'', mac = ''ac:cf:23:11:22:33'',
                    model = Some ''HF-LPB100''\<rparr>],
        dc_hello = JsBuffer ''HF-A11ASSISTHREAD'', dc_timeout = 3000,
        dc_remotePort = 48899, stopDiscover = True, dc_closed = True,
        dc_calls =
          [CreateSocket, UdpUnref, Bind None, SetBroadcast True,
           Send (JsBuffer ''HF-A11ASSISTHREAD'') 48899 ''255.255.255.255'',
           SetTimeout 3000, ClearTimeout, UdpClose, ClearTimeout,
           Callback (Some (SocketError ''EPIPE''))
             [\<lparr>ip = Some ''10.0.0.9'', mac = ''ac:cf:23:11:22:33'',
                model = Some ''HF-LPB100''\<rparr>]]\<rparr>"
  by (simp add: udp_defs parser_defs Let_def)

section \<open>Verification of the AT command decoder\<close>






text \<open>
  The hypothesis on the suffix is needed.  The code cuts as many code units from the end
  as the receive \<^emph>\<open>prefix\<close> is long: with the suffix CR LF, shorter than the prefix
  \<open>+ok\<close>, the last character of the value is lost.
\<close>

lemma recv_short_suffix_example:
  "(case assembleCommand
           \<lparr>defaultHello = ''HF-A11ASSISTHREAD'', sendPrefix = ''AT+'', sendSuffix = [CHR 0x0D],
            recvPrefix = ''+ok'', recvSuffix = [CHR 0x0D, CHR 0x0A]\<rparr>
           (\<lambda>name. if name = ''wifiClientIp''
                    then Some \<lparr>cmd = ''WANN'', cmd_literal = False, cmd_get = JsString ''ip'',
                               cmd_set = JsUndefined\<rparr>
                    else None)
           ''wifiClientIp'' [] of
      Inl e \<Rightarrow> ([], [])
    | Inr (send, decode) \<Rightarrow> (send, decode (''+ok=192.168.4.1'' @ [CHR 0x0D, CHR 0x0A]))) =
     (''AT+WANN'' @ [CHR 0x0D], [''192.168.4.'']) \<and>
   recv_spec
       \<lparr>defaultHello = ''HF-A11ASSISTHREAD'', sendPrefix = ''AT+'', sendSuffix = [CHR 0x0D],
        recvPrefix = ''+ok'', recvSuffix = [CHR 0x0D, CHR 0x0A]\<rparr>
       (JsString ''ip'') (''+ok=192.168.4.1'' @ [CHR 0x0D, CHR 0x0A]) =
     [''192.168.4.1'']"
  by (simp add: assembleCommand_def recv_def recv_spec_def js_or_def truthy_def startsWith_def
      endsWith_def trim_def isWhiteSpace_def Let_def)

end
